theory Spec2Isabelle
  imports Main
begin

section \<open>JavaScript strings\<close>

text \<open>
  A JavaScript string is modelled as a \<open>string\<close>: the list of its code units, here the
  code units below 256. \<open>length\<close> is JavaScript's \<open>.length\<close>.

  \<open>isWhiteSpace\<close> holds of the code units that \<open>String.prototype.trim\<close> removes and
  that the regular expression class \<open>\s\<close> matches: tab, line feed, vertical tab, form
  feed, carriage return, space and no-break space.
\<close>

definition isWhiteSpace :: "char \<Rightarrow> bool" where
  "isWhiteSpace c \<longleftrightarrow>
     c = CHR 0x09 \<or> c = CHR 0x0A \<or> c = CHR 0x0B \<or> c = CHR 0x0C \<or> c = CHR 0x0D \<or>
     c = CHR 0x20 \<or> c = CHR 0xA0"

definition trimStart :: "string \<Rightarrow> string" where
  "trimStart s = dropWhile isWhiteSpace s"

definition trimEnd :: "string \<Rightarrow> string" where
  "trimEnd s = rev (dropWhile isWhiteSpace (rev s))"

definition trim :: "string \<Rightarrow> string" where
  "trim s = trimEnd (trimStart s)"

text \<open>\<open>s.startsWith(pat)\<close> and \<open>s.includes(pat)\<close>.\<close>

definition startsWith :: "string \<Rightarrow> string \<Rightarrow> bool" where
  "startsWith s pat \<longleftrightarrow> take (length pat) s = pat"

fun strIncludes :: "string \<Rightarrow> string \<Rightarrow> bool" where
  "strIncludes [] pat \<longleftrightarrow> pat = []"
| "strIncludes (c # cs) pat \<longleftrightarrow> startsWith (c # cs) pat \<or> strIncludes cs pat"

text \<open>
  \<open>s.replace(/pat/g, rep)\<close> for a pattern that is a literal, non-empty string: matches are
  found from left to right and do not overlap; the replacement text is not rescanned.
\<close>

function replaceAll :: "string \<Rightarrow> string \<Rightarrow> string \<Rightarrow> string" where
  "replaceAll pat rep [] = []"
| "replaceAll pat rep (c # cs) =
     (if pat \<noteq> [] \<and> startsWith (c # cs) pat
      then rep @ replaceAll pat rep (drop (length pat) (c # cs))
      else c # replaceAll pat rep cs)"
  by pat_completeness auto
termination
  by (relation "measure (\<lambda>(pat, rep, s). length s)") (auto simp: neq_Nil_conv)

section \<open>The Markdown cleanup \<open>cleanMarkdown\<close>\<close>

text \<open>
  \<^verbatim>\<open>.replace(/\n{3,}/g, '\n\n')\<close>: every maximal run of three or more line feeds becomes
  two line feeds.
\<close>

definition isNewline :: "char \<Rightarrow> bool" where
  "isNewline c \<longleftrightarrow> c = CHR 0x0A"

function collapseNewlines :: "string \<Rightarrow> string" where
  "collapseNewlines [] = []"
| "collapseNewlines (c # cs) =
     (if startsWith (c # cs) [CHR 0x0A, CHR 0x0A, CHR 0x0A]
      then [CHR 0x0A, CHR 0x0A] @ collapseNewlines (dropWhile isNewline cs)
      else c # collapseNewlines cs)"
  by pat_completeness auto
termination
  by (relation "measure length") (auto simp: length_dropWhile_le less_Suc_eq_le)

text \<open>
  \<^verbatim>\<open>.replace(/^[ \t]+(?!```)/gm, '')\<close>. With the \<open>m\<close> flag \<open>^\<close> matches at the start of
  the text and after a line terminator (line feed or carriage return). The greedy
  \<open>[ \t]+\<close> takes the whole run of blanks; when three backticks follow the run, the
  lookahead fails and the match backs off by one blank, after which the lookahead sees a
  blank and succeeds: all blanks but the last are removed. A single blank before three
  backticks cannot back off and stays. Hence, inside the run of blanks at the start of a
  line (\<open>inIndent\<close>), a blank is kept exactly when the fence follows it immediately.
\<close>

definition isBlank :: "char \<Rightarrow> bool" where
  "isBlank c \<longleftrightarrow> c = CHR 0x20 \<or> c = CHR 0x09"

definition isLineTerminator :: "char \<Rightarrow> bool" where
  "isLineTerminator c \<longleftrightarrow> c = CHR 0x0A \<or> c = CHR 0x0D"

definition fence :: string where
  "fence = [CHR 0x60, CHR 0x60, CHR 0x60]"

fun stripLineIndent :: "bool \<Rightarrow> string \<Rightarrow> string" where
  "stripLineIndent inIndent [] = []"
| "stripLineIndent inIndent (c # cs) =
     (if inIndent \<and> isBlank c then
        (if startsWith cs fence then c # stripLineIndent False cs
         else stripLineIndent True cs)
      else c # stripLineIndent (isLineTerminator c) cs)"

text \<open>The chain of replacements of \<open>cleanMarkdown\<close>, in the source's order, then \<open>trim\<close>.\<close>

definition cleanMarkdown :: "string \<Rightarrow> string" where
  "cleanMarkdown text =
     trim (stripLineIndent True
       (replaceAll ''&quot;'' [CHR 0x22]
         (replaceAll ''&nbsp;'' '' ''
           (replaceAll ''&amp;'' ''&''
             (replaceAll ''&gt;'' ''>''
               (replaceAll ''&lt;'' ''<''
                 (collapseNewlines text)))))))"


subsection \<open>Facts about the string functions\<close>

lemma startsWith_Nil [simp]: "startsWith s []"
  by (simp add: startsWith_def)

lemma startsWith_Nil_left [simp]: "startsWith [] pat \<longleftrightarrow> pat = []"
  by (auto simp: startsWith_def)

lemma startsWith_Cons [simp]:
  "startsWith (c # cs) (p # ps) \<longleftrightarrow> c = p \<and> startsWith cs ps"
  by (auto simp: startsWith_def)

lemma startsWith_length: "startsWith s pat \<Longrightarrow> length pat \<le> length s"
proof -
  assume "startsWith s pat"
  then have "length (take (length pat) s) = length pat"
    by (simp add: startsWith_def)
  then show ?thesis by simp
qed

subsection \<open>Newline collapse\<close>

lemma length_collapseNewlines: "length (collapseNewlines s) \<le> length s"
proof (induction s rule: collapseNewlines.induct)
  case 1
  show ?case by simp
next
  case (2 c cs)
  show ?case
  proof (cases "startsWith (c # cs) [CHR 0x0A, CHR 0x0A, CHR 0x0A]")
    case True
    then obtain r where cs: "cs = CHR 0x0A # CHR 0x0A # r"
      by (cases cs; cases "tl cs") auto
    have "length (dropWhile isNewline cs) \<le> length r"
      using length_dropWhile_le [of isNewline r] by (simp add: cs isNewline_def)
    with "2.IH"(1) [OF True] True show ?thesis
      by (simp add: cs)
  next
    case False
    with "2.IH"(2) show ?thesis by auto
  qed
qed

lemma collapseNewlines_shrinks:
  "strIncludes s [CHR 0x0A, CHR 0x0A, CHR 0x0A] \<Longrightarrow> length (collapseNewlines s) < length s"
proof (induction s rule: collapseNewlines.induct)
  case 1
  then show ?case by simp
next
  case (2 c cs)
  show ?case
  proof (cases "startsWith (c # cs) [CHR 0x0A, CHR 0x0A, CHR 0x0A]")
    case True
    then obtain r where cs: "cs = CHR 0x0A # CHR 0x0A # r"
      by (cases cs; cases "tl cs") auto
    have "length (dropWhile isNewline cs) \<le> length r"
      using length_dropWhile_le [of isNewline r] by (simp add: cs isNewline_def)
    moreover have "length (collapseNewlines (dropWhile isNewline cs))
        \<le> length (dropWhile isNewline cs)"
      by (rule length_collapseNewlines)
    ultimately show ?thesis
      using True by (simp add: cs)
  next
    case False
    with "2.prems" have "strIncludes cs [CHR 0x0A, CHR 0x0A, CHR 0x0A]"
      by auto
    with "2.IH"(2) False show ?thesis by auto
  qed
qed

lemma collapseNewlines_id:
  "\<not> strIncludes s [CHR 0x0A, CHR 0x0A, CHR 0x0A] \<Longrightarrow> collapseNewlines s = s"
  by (induction s) auto

subsection \<open>Literal replacement\<close>

lemma length_replaceAll:
  "length rep \<le> length pat \<Longrightarrow> length (replaceAll pat rep s) \<le> length s"
proof (induction pat rep s rule: replaceAll.induct)
  case (1 pat rep)
  show ?case by simp
next
  case (2 pat rep c cs)
  show ?case
  proof (cases "pat \<noteq> [] \<and> startsWith (c # cs) pat")
    case True
    then have "length pat \<le> length (c # cs)"
      by (auto dest: startsWith_length)
    with "2.IH"(1) [OF True] "2.prems" True show ?thesis
      by simp
  next
    case False
    with "2.IH"(2) "2.prems" show ?thesis by auto
  qed
qed

lemma replaceAll_shrinks:
  "length rep < length pat \<Longrightarrow> strIncludes s pat \<Longrightarrow>
   length (replaceAll pat rep s) < length s"
proof (induction pat rep s rule: replaceAll.induct)
  case (1 pat rep)
  then show ?case by simp
next
  case (2 pat rep c cs)
  have ne: "pat \<noteq> []" using "2.prems"(1) by auto
  show ?case
  proof (cases "startsWith (c # cs) pat")
    case True
    then have "length pat \<le> length (c # cs)"
      by (auto dest: startsWith_length)
    moreover have "length (replaceAll pat rep (drop (length pat) (c # cs)))
        \<le> length (drop (length pat) (c # cs))"
      using "2.prems"(1) by (intro length_replaceAll) simp
    ultimately show ?thesis
      using True ne "2.prems"(1) by simp
  next
    case False
    with "2.prems" have "strIncludes cs pat" by simp
    with "2.IH"(2) False "2.prems"(1) show ?thesis by auto
  qed
qed

lemma replaceAll_id: "\<not> strIncludes s pat \<Longrightarrow> replaceAll pat rep s = s"
  by (induction s) auto

subsection \<open>Line indentation\<close>

lemma length_stripLineIndent: "length (stripLineIndent b s) \<le> length s"
  by (induction b s rule: stripLineIndent.induct) (auto intro: le_SucI)

lemma stripLineIndent_fixed_Cons:
  "stripLineIndent b (c # cs) = c # cs \<longleftrightarrow>
     (if b \<and> isBlank c then startsWith cs fence \<and> stripLineIndent False cs = cs
      else stripLineIndent (isLineTerminator c) cs = cs)"
proof -
  have "length (stripLineIndent True cs) \<noteq> length (c # cs)"
    using length_stripLineIndent [of True cs] by simp
  then have "stripLineIndent True cs \<noteq> c # cs"
    by (rule contrapos_nn) simp
  then show ?thesis by auto
qed

lemma stripLineIndent_flag:
  "s = [] \<or> \<not> isBlank (hd s) \<Longrightarrow> stripLineIndent b s = stripLineIndent False s"
  by (cases s) auto

lemma fence_not_blank: "startsWith s fence \<Longrightarrow> s \<noteq> [] \<and> \<not> isBlank (hd s)"
  by (cases s) (auto simp: fence_def isBlank_def)

lemma stripLineIndent_fence:
  "startsWith s fence \<Longrightarrow> startsWith (stripLineIndent b s) fence"
  by (cases s; cases "tl s"; cases "tl (tl s)")
    (auto simp: fence_def isBlank_def isLineTerminator_def)

lemma hd_stripLineIndent_False:
  "s = [] \<or> \<not> isBlank (hd s) \<Longrightarrow>
   stripLineIndent False s = [] \<or> \<not> isBlank (hd (stripLineIndent False s))"
  by (cases s) auto

lemma stripLineIndent_True_head:
  "stripLineIndent True s = [] \<or> \<not> isBlank (hd (stripLineIndent True s))
   \<or> startsWith (tl (stripLineIndent True s)) fence"
  by (induction s) (auto simp: stripLineIndent_fence)

lemma stripLineIndent_idem: "stripLineIndent b (stripLineIndent b s) = stripLineIndent b s"
proof (induction b s rule: stripLineIndent.induct)
  case (1 b)
  show ?case by simp
next
  case (2 b c cs)
  show ?case
  proof (cases "b \<and> isBlank c")
    case blank: True
    show ?thesis
    proof (cases "startsWith cs fence")
      case True
      then have f: "startsWith (stripLineIndent False cs) fence"
        by (rule stripLineIndent_fence)
      have e1: "stripLineIndent b (c # cs) = c # stripLineIndent False cs"
        using blank True by simp
      have e2: "stripLineIndent b (c # stripLineIndent False cs)
          = c # stripLineIndent False (stripLineIndent False cs)"
        using blank f by simp
      show ?thesis
        by (simp only: e1 e2 "2.IH"(1) [OF blank True])
    next
      case False
      have e1: "stripLineIndent True (c # cs) = stripLineIndent True cs"
        using blank False by simp
      have e2: "b = True" using blank by simp
      show ?thesis
        unfolding e2 by (simp only: e1 "2.IH"(2) [OF blank False])
    qed
  next
    case False
    have e1: "stripLineIndent b (c # cs) = c # stripLineIndent (isLineTerminator c) cs"
      using False by auto
    have e2: "stripLineIndent b (c # stripLineIndent (isLineTerminator c) cs)
        = c # stripLineIndent (isLineTerminator c) (stripLineIndent (isLineTerminator c) cs)"
      using False by auto
    show ?thesis
      by (simp only: e1 e2 "2.IH"(3) [OF False])
  qed
qed

declare stripLineIndent.simps(2) [simp del]

lemma isBlank_isWhiteSpace: "isBlank c \<Longrightarrow> isWhiteSpace c"
  by (auto simp: isBlank_def isWhiteSpace_def)

lemma stripLineIndent_fixed_blank:
  "stripLineIndent b (c # cs) = c # cs \<Longrightarrow> b \<and> isBlank c \<Longrightarrow>
   startsWith cs fence \<and> stripLineIndent False cs = cs"
  by (simp add: stripLineIndent_fixed_Cons)

lemma stripLineIndent_fixed_other:
  "stripLineIndent b (c # cs) = c # cs \<Longrightarrow> \<not> (b \<and> isBlank c) \<Longrightarrow>
   stripLineIndent (isLineTerminator c) cs = cs"
  by (simp add: stripLineIndent_fixed_Cons)

lemma stripLineIndent_fixed_tail:
  "stripLineIndent b (c # cs) = c # cs \<Longrightarrow> \<exists>b'. stripLineIndent b' cs = cs"
  by (cases "b \<and> isBlank c")
    (blast dest: stripLineIndent_fixed_blank, blast dest: stripLineIndent_fixed_other)

lemma stripLineIndent_fixed_dropWhile:
  "stripLineIndent b x = x \<Longrightarrow>
   stripLineIndent b' (dropWhile isWhiteSpace x) = dropWhile isWhiteSpace x"
proof (induction x arbitrary: b b')
  case Nil
  show ?case by simp
next
  case (Cons c cs)
  show ?case
  proof (cases "isWhiteSpace c")
    case True
    from Cons.prems obtain b'' where "stripLineIndent b'' cs = cs"
      using stripLineIndent_fixed_tail by blast
    then have "stripLineIndent b' (dropWhile isWhiteSpace cs) = dropWhile isWhiteSpace cs"
      by (rule Cons.IH)
    with True show ?thesis by simp
  next
    case False
    then have nb: "\<not> isBlank c"
      using isBlank_isWhiteSpace by blast
    with Cons.prems have "stripLineIndent (isLineTerminator c) cs = cs"
      by (intro stripLineIndent_fixed_other) simp_all
    with nb have "stripLineIndent b' (c # cs) = c # cs"
      by (simp add: stripLineIndent_fixed_Cons)
    with False show ?thesis by simp
  qed
qed

lemma startsWith_fence_append:
  "startsWith (cs @ w) fence \<Longrightarrow> \<forall>c\<in>set w. isWhiteSpace c \<Longrightarrow> startsWith cs fence"
  by (cases cs; cases "tl cs"; cases "tl (tl cs)"; cases w; cases "tl w"; cases "tl (tl w)")
    (auto simp: fence_def isWhiteSpace_def)

lemma stripLineIndent_fixed_prefix:
  "stripLineIndent b (y @ w) = y @ w \<Longrightarrow> \<forall>c\<in>set w. isWhiteSpace c \<Longrightarrow>
   stripLineIndent b y = y"
proof (induction y arbitrary: b)
  case Nil
  show ?case by simp
next
  case (Cons c cs)
  from Cons.prems(1) have fx: "stripLineIndent b (c # (cs @ w)) = c # (cs @ w)"
    by simp
  show ?case
  proof (cases "b \<and> isBlank c")
    case True
    from fx True have "startsWith (cs @ w) fence \<and> stripLineIndent False (cs @ w) = cs @ w"
      by (rule stripLineIndent_fixed_blank)
    then have f: "startsWith (cs @ w) fence" and t: "stripLineIndent False (cs @ w) = cs @ w"
      by simp_all
    from f Cons.prems(2) have "startsWith cs fence"
      by (rule startsWith_fence_append)
    moreover from t Cons.prems(2) have "stripLineIndent False cs = cs"
      by (rule Cons.IH)
    ultimately show ?thesis
      using True by (simp add: stripLineIndent_fixed_Cons)
  next
    case False
    from fx False have "stripLineIndent (isLineTerminator c) (cs @ w) = cs @ w"
      by (rule stripLineIndent_fixed_other)
    then have "stripLineIndent (isLineTerminator c) cs = cs"
      using Cons.prems(2) by (rule Cons.IH)
    with False show ?thesis
      by (auto simp: stripLineIndent_fixed_Cons)
  qed
qed

subsection \<open>Trimming\<close>

lemma trimEnd_decomp: "\<exists>w. s = trimEnd s @ w \<and> (\<forall>c\<in>set w. isWhiteSpace c)"
proof (intro exI conjI)
  have "rev (dropWhile isWhiteSpace (rev s)) @ rev (takeWhile isWhiteSpace (rev s))
      = rev (takeWhile isWhiteSpace (rev s) @ dropWhile isWhiteSpace (rev s))"
    by (simp only: rev_append)
  also have "\<dots> = rev (rev s)"
    by (simp only: takeWhile_dropWhile_id)
  also have "\<dots> = s"
    by simp
  finally show "s = trimEnd s @ rev (takeWhile isWhiteSpace (rev s))"
    by (simp only: trimEnd_def)
  show "\<forall>c\<in>set (rev (takeWhile isWhiteSpace (rev s))). isWhiteSpace c"
    by (auto dest: set_takeWhileD)
qed

lemma length_trim: "length (trim s) \<le> length s"
proof -
  have "length (trim s) \<le> length (trimStart s)"
    using length_dropWhile_le [of isWhiteSpace "rev (trimStart s)"]
    by (simp add: trim_def trimEnd_def)
  also have "\<dots> \<le> length s"
    by (simp add: trimStart_def length_dropWhile_le)
  finally show ?thesis .
qed

lemma trimEnd_idem: "trimEnd (trimEnd s) = trimEnd s"
  by (simp add: trimEnd_def dropWhile_idem)

lemma trimEnd_Cons: "\<not> isWhiteSpace c \<Longrightarrow> \<exists>zs. trimEnd (c # cs) = c # zs"
proof -
  assume c: "\<not> isWhiteSpace c"
  have "dropWhile isWhiteSpace (rev cs @ [c])
      = (if \<forall>x\<in>set (rev cs). isWhiteSpace x then [c] else dropWhile isWhiteSpace (rev cs) @ [c])"
    using c by (simp add: dropWhile_append)
  then have "trimEnd (c # cs)
      = (if \<forall>x\<in>set (rev cs). isWhiteSpace x then [c]
         else c # rev (dropWhile isWhiteSpace (rev cs)))"
    by (simp add: trimEnd_def)
  then show ?thesis
    by (cases "\<forall>x\<in>set (rev cs). isWhiteSpace x") simp_all
qed

lemma trimStart_trimEnd: "trimStart (trimEnd (trimStart s)) = trimEnd (trimStart s)"
proof (cases "trimStart s")
  case Nil
  show ?thesis
    unfolding Nil by (simp add: trimEnd_def trimStart_def)
next
  case (Cons c cs)
  then have "dropWhile isWhiteSpace s \<noteq> []"
    by (simp add: trimStart_def)
  then have "\<not> isWhiteSpace (hd (dropWhile isWhiteSpace s))"
    by (rule hd_dropWhile)
  with Cons have "\<not> isWhiteSpace c"
    by (simp add: trimStart_def)
  then obtain zs where "trimEnd (c # cs) = c # zs"
    using trimEnd_Cons by blast
  with Cons \<open>\<not> isWhiteSpace c\<close> show ?thesis
    by (simp add: trimStart_def [of "c # zs"])
qed

lemma trim_idem: "trim (trim s) = trim s"
  by (simp add: trim_def trimStart_trimEnd trimEnd_idem)

lemma stripLineIndent_trim_fixed:
  assumes "stripLineIndent True z = z"
  shows "stripLineIndent True (trim z) = trim z"
proof -
  have a: "stripLineIndent True (trimStart z) = trimStart z"
    unfolding trimStart_def using assms by (rule stripLineIndent_fixed_dropWhile)
  obtain w where w: "trimStart z = trimEnd (trimStart z) @ w" "\<forall>c\<in>set w. isWhiteSpace c"
    using trimEnd_decomp by blast
  from a w(1) have "stripLineIndent True (trimEnd (trimStart z) @ w) = trimEnd (trimStart z) @ w"
    by simp
  then show ?thesis
    unfolding trim_def using w(2) by (rule stripLineIndent_fixed_prefix)
qed

subsection \<open>Fixed points of the cleanup\<close>

lemma cleanMarkdown_stripLineIndent_fixed:
  "stripLineIndent True (cleanMarkdown s) = cleanMarkdown s"
  unfolding cleanMarkdown_def
  by (intro stripLineIndent_trim_fixed stripLineIndent_idem)

lemma cleanMarkdown_trim_fixed: "trim (cleanMarkdown s) = cleanMarkdown s"
  by (simp add: cleanMarkdown_def trim_idem)

lemma cleanMarkdown_fixed_if:
  assumes "stripLineIndent True x = x" and "trim x = x"
    and "\<not> strIncludes x ''\<newline>\<newline>\<newline>''"
    and "\<not> strIncludes x ''&lt;''" and "\<not> strIncludes x ''&gt;''"
    and "\<not> strIncludes x ''&amp;''" and "\<not> strIncludes x ''&nbsp;''"
    and "\<not> strIncludes x ''&quot;''"
  shows "cleanMarkdown x = x"
  using assms by (simp add: cleanMarkdown_def collapseNewlines_id replaceAll_id)

lemma cleanMarkdown_fixed_only_if:
  assumes fx: "cleanMarkdown x = x"
  shows "\<not> strIncludes x ''\<newline>\<newline>\<newline>'' \<and> \<not> strIncludes x ''&lt;''
    \<and> \<not> strIncludes x ''&gt;'' \<and> \<not> strIncludes x ''&amp;''
    \<and> \<not> strIncludes x ''&nbsp;'' \<and> \<not> strIncludes x ''&quot;''"
proof -
  define x1 where "x1 = collapseNewlines x"
  define x2 where "x2 = replaceAll ''&lt;'' ''<'' x1"
  define x3 where "x3 = replaceAll ''&gt;'' ''>'' x2"
  define x4 where "x4 = replaceAll ''&amp;'' ''&'' x3"
  define x5 where "x5 = replaceAll ''&nbsp;'' '' '' x4"
  define x6 where "x6 = replaceAll ''&quot;'' [CHR 0x22] x5"
  have "x = trim (stripLineIndent True x6)"
    using fx by (simp add: cleanMarkdown_def x1_def x2_def x3_def x4_def x5_def x6_def)
  then have "length x \<le> length (stripLineIndent True x6)"
    using length_trim [of "stripLineIndent True x6"] by simp
  then have l6: "length x \<le> length x6"
    using length_stripLineIndent [of True x6] by simp
  have l65: "length x6 \<le> length x5"
    unfolding x6_def by (rule length_replaceAll) simp
  have l54: "length x5 \<le> length x4"
    unfolding x5_def by (rule length_replaceAll) simp
  have l43: "length x4 \<le> length x3"
    unfolding x4_def by (rule length_replaceAll) simp
  have l32: "length x3 \<le> length x2"
    unfolding x3_def by (rule length_replaceAll) simp
  have l21: "length x2 \<le> length x1"
    unfolding x2_def by (rule length_replaceAll) simp
  have l10: "length x1 \<le> length x"
    unfolding x1_def by (rule length_collapseNewlines)
  have n0: "\<not> strIncludes x ''\<newline>\<newline>\<newline>''"
  proof
    assume "strIncludes x ''\<newline>\<newline>\<newline>''"
    then have "length x1 < length x"
      unfolding x1_def by (rule collapseNewlines_shrinks)
    with l6 l65 l54 l43 l32 l21 show False by simp
  qed
  then have e1: "x1 = x"
    unfolding x1_def by (rule collapseNewlines_id)
  have n1: "\<not> strIncludes x ''&lt;''"
  proof
    assume "strIncludes x ''&lt;''"
    then have "length x2 < length x1"
      unfolding x2_def e1 by (intro replaceAll_shrinks) simp_all
    with l6 l65 l54 l43 l32 l10 show False by simp
  qed
  then have e2: "x2 = x"
    unfolding x2_def e1 by (rule replaceAll_id)
  have n2: "\<not> strIncludes x ''&gt;''"
  proof
    assume "strIncludes x ''&gt;''"
    then have "length x3 < length x2"
      unfolding x3_def e2 by (intro replaceAll_shrinks) simp_all
    with l6 l65 l54 l43 l21 l10 show False by simp
  qed
  then have e3: "x3 = x"
    unfolding x3_def e2 by (rule replaceAll_id)
  have n3: "\<not> strIncludes x ''&amp;''"
  proof
    assume "strIncludes x ''&amp;''"
    then have "length x4 < length x3"
      unfolding x4_def e3 by (intro replaceAll_shrinks) simp_all
    with l6 l65 l54 l32 l21 l10 show False by simp
  qed
  then have e4: "x4 = x"
    unfolding x4_def e3 by (rule replaceAll_id)
  have n4: "\<not> strIncludes x ''&nbsp;''"
  proof
    assume "strIncludes x ''&nbsp;''"
    then have "length x5 < length x4"
      unfolding x5_def e4 by (intro replaceAll_shrinks) simp_all
    with l6 l65 l43 l32 l21 l10 show False by simp
  qed
  then have e5: "x5 = x"
    unfolding x5_def e4 by (rule replaceAll_id)
  have n5: "\<not> strIncludes x ''&quot;''"
  proof
    assume "strIncludes x ''&quot;''"
    then have "length x6 < length x5"
      unfolding x6_def e5 by (intro replaceAll_shrinks) simp_all
    with l6 e5 show False by simp
  qed
  from n0 n1 n2 n3 n4 n5 show ?thesis by simp
qed

subsection \<open>Claim C3: applying the cleanup twice\<close>

definition cleanupSample :: string where
  "cleanupSample = ''  Hello\<newline>\<newline>\<newline>\<newline>world &lt;b&gt; &amp;nbsp;x  ''"

lemmas cleanup_eval =
  cleanMarkdown_def startsWith_def trim_def trimStart_def trimEnd_def isWhiteSpace_def
  isBlank_def isLineTerminator_def isNewline_def fence_def stripLineIndent.simps(2)

text \<open>
  As stated, the claim says that the cleanup is idempotent on every input. It is not:
  \<open>&amp;lt;\<close> is cleaned to \<open>&lt;\<close> (the \<open>&lt;\<close> replacement has already run when
  \<open>&amp;\<close> is un-escaped), and a second application turns that into \<open><\<close>. Likewise
  a line holding only a blank is emptied after the newline collapse has run, which
  leaves three line feeds in a row for the second application to collapse.
\<close>

theorem cleanMarkdown_not_idempotent:
  "cleanMarkdown ''&amp;lt;'' = ''&lt;''
   \<and> cleanMarkdown (cleanMarkdown ''&amp;lt;'') = ''<''
   \<and> cleanMarkdown ''a\<newline> \<newline> \<newline>b'' = ''a\<newline>\<newline>\<newline>b''
   \<and> cleanMarkdown (cleanMarkdown ''a\<newline> \<newline> \<newline>b'') = ''a\<newline>\<newline>b''"
  by (simp add: cleanup_eval)

text \<open>
  Claim C3, amended. Applying the cleanup twice yields the same string as applying it
  once exactly when the once-cleaned text contains no run of three line feeds and none of
  the five entities \<open>&lt;\<close>, \<open>&gt;\<close>, \<open>&amp;\<close>, \<open>&nbsp;\<close>, \<open>&quot;\<close>. (The
  indentation stripping and the trimming never disturb a second application: the
  once-cleaned text is always a fixed point of both.)
\<close>

theorem cleanMarkdown_twice:
  "cleanMarkdown (cleanMarkdown s) = cleanMarkdown s \<longleftrightarrow>
     \<not> strIncludes (cleanMarkdown s) ''\<newline>\<newline>\<newline>''
     \<and> \<not> strIncludes (cleanMarkdown s) ''&lt;''
     \<and> \<not> strIncludes (cleanMarkdown s) ''&gt;''
     \<and> \<not> strIncludes (cleanMarkdown s) ''&amp;''
     \<and> \<not> strIncludes (cleanMarkdown s) ''&nbsp;''
     \<and> \<not> strIncludes (cleanMarkdown s) ''&quot;''"
  using cleanMarkdown_fixed_if [OF cleanMarkdown_stripLineIndent_fixed cleanMarkdown_trim_fixed, of s]
    cleanMarkdown_fixed_only_if [of "cleanMarkdown s"]
  by blast

theorem cleanMarkdown_twice_witness:
  "cleanMarkdown cleanupSample = ''Hello\<newline>\<newline>world <b>  x''
   \<and> cleanMarkdown (cleanMarkdown cleanupSample) = cleanMarkdown cleanupSample"
proof -
  have v: "cleanMarkdown cleanupSample = ''Hello\<newline>\<newline>world <b>  x''"
    by (simp add: cleanupSample_def cleanup_eval)
  have "cleanMarkdown (cleanMarkdown cleanupSample) = cleanMarkdown cleanupSample"
    using cleanMarkdown_twice [of cleanupSample] by (simp add: v startsWith_def)
  with v show ?thesis by simp
qed

section \<open>More JavaScript string functions\<close>

text \<open>
  \<open>toLowerCase\<close> on code units below 256: the ASCII capitals and the Latin-1 capitals
  (all of \<open>0xC0..0xDE\<close> but the multiplication sign \<open>0xD7\<close>) move up by 32.
\<close>

definition toLowerChar :: "char \<Rightarrow> char" where
  "toLowerChar c =
     (let n = (of_char c :: nat) in
      if (65 \<le> n \<and> n \<le> 90) \<or> (192 \<le> n \<and> n \<le> 222 \<and> n \<noteq> 215)
      then char_of (n + 32) else c)"

definition toLowerCase :: "string \<Rightarrow> string" where
  "toLowerCase s = map toLowerChar s"

text \<open>\<open>xs.join(sep)\<close> on an array of strings.\<close>

fun join :: "string \<Rightarrow> string list \<Rightarrow> string" where
  "join sep [] = []"
| "join sep [x] = x"
| "join sep (x # y # ys) = x @ sep @ join sep (y # ys)"

text \<open>\<^verbatim>\<open>.replace(/\n/g, rep)\<close>: every line feed is replaced.\<close>

definition replaceNewlines :: "string \<Rightarrow> string \<Rightarrow> string" where
  "replaceNewlines rep s = concat (map (\<lambda>c. if c = CHR 0x0A then rep else [c]) s)"

text \<open>\<^verbatim>\<open>.replace(/\n+/g, ' ')\<close>: every maximal run of line feeds becomes one space.\<close>

function newlineRunsToSpace :: "string \<Rightarrow> string" where
  "newlineRunsToSpace [] = []"
| "newlineRunsToSpace (c # cs) =
     (if c = CHR 0x0A then CHR 0x20 # newlineRunsToSpace (dropWhile isNewline cs)
      else c # newlineRunsToSpace cs)"
  by pat_completeness auto
termination
  by (relation "measure length") (auto simp: length_dropWhile_le less_Suc_eq_le)

text \<open>
  \<open>escapeMarkdownText\<close>: three replacements in a row, the backslash first.
\<close>

definition escapeMarkdownText :: "string \<Rightarrow> string" where
  "escapeMarkdownText text =
     replaceAll '']'' [CHR 0x5C, CHR '']'']
       (replaceAll ''['' [CHR 0x5C, CHR ''['']
         (replaceAll [CHR 0x5C] [CHR 0x5C, CHR 0x5C] text))"

text \<open>
  Decimal digits: the digits that \<open>parseInt(s, 10)\<close> reads, their value, and the decimal
  numeral of a natural number.
\<close>

definition isDigit :: "char \<Rightarrow> bool" where
  "isDigit c \<longleftrightarrow> 48 \<le> (of_char c :: nat) \<and> (of_char c :: nat) \<le> 57"

definition digitsValue :: "string \<Rightarrow> nat" where
  "digitsValue ds = foldl (\<lambda>acc c. acc * 10 + (of_char c - 48)) 0 ds"

fun natToString :: "nat \<Rightarrow> string" where
  "natToString n =
     (if n < 10 then [char_of (48 + n)]
      else natToString (n div 10) @ [char_of (48 + n mod 10)])"

declare natToString.simps [simp del]

section \<open>The document tree\<close>

text \<open>
  A DOM node is an element (its tag name in lower case, as the code compares it after
  \<open>tagName.toLowerCase()\<close>; its attributes in order; its child nodes), a text node, or
  a node of another kind (a comment).
\<close>

datatype node =
    Element (tagName: string) (attributes: "(string \<times> string) list") (childNodes: "node list")
  | TextNode string
  | Comment string

fun isElement :: "node \<Rightarrow> bool" where
  "isElement (Element t a cs) = True"
| "isElement n = False"

text \<open>\<open>element.getAttribute(name)\<close>: \<open>None\<close> is \<open>null\<close>.\<close>

fun getAttribute :: "node \<Rightarrow> string \<Rightarrow> string option" where
  "getAttribute (Element t a cs) name = map_of a name"
| "getAttribute n name = None"

text \<open>\<open>value || ''\<close> for a string or \<open>null\<close>.\<close>

definition orEmpty :: "string option \<Rightarrow> string" where
  "orEmpty v = (case v of None \<Rightarrow> [] | Some s \<Rightarrow> s)"

text \<open>\<open>element.className\<close> of an HTML element: the class attribute, or the empty string.\<close>

definition className :: "node \<Rightarrow> string" where
  "className e = orEmpty (getAttribute e ''class'')"

text \<open>
  \<open>node.textContent\<close>: for a text node its text; for an element the concatenation of
  the text of all text nodes below it (comments contribute nothing).
\<close>

fun textContent :: "node \<Rightarrow> string" where
  "textContent (Element t a cs) = concat (map textContent cs)"
| "textContent (TextNode s) = s"
| "textContent (Comment s) = []"

text \<open>
  The nodes below a node in document order, each with the tag names of its ancestors,
  nearest first. \<open>ancs\<close> are the ancestors of the node itself.
\<close>

fun descendants :: "string list \<Rightarrow> node \<Rightarrow> (string list \<times> node) list"
  and descendantsOfList :: "string list \<Rightarrow> node list \<Rightarrow> (string list \<times> node) list" where
  "descendants ancs (Element t a cs) = descendantsOfList (t # ancs) cs"
| "descendants ancs (TextNode s) = []"
| "descendants ancs (Comment s) = []"
| "descendantsOfList ancs [] = []"
| "descendantsOfList ancs (c # cs) = (ancs, c) # descendants ancs c @ descendantsOfList ancs cs"

definition hasTag :: "string \<Rightarrow> node \<Rightarrow> bool" where
  "hasTag t n \<longleftrightarrow> isElement n \<and> tagName n = t"

text \<open>\<open>element.querySelectorAll(tag)\<close> and \<open>element.querySelector(tag)\<close> for a tag name.\<close>

definition querySelectorAllTag :: "string list \<Rightarrow> node \<Rightarrow> string \<Rightarrow> (string list \<times> node) list" where
  "querySelectorAllTag ancs e t = filter (\<lambda>(a, n). hasTag t n) (descendants ancs e)"

definition querySelectorTag :: "string list \<Rightarrow> node \<Rightarrow> string \<Rightarrow> (string list \<times> node) option" where
  "querySelectorTag ancs e t =
     (case querySelectorAllTag ancs e t of [] \<Rightarrow> None | x # xs \<Rightarrow> Some x)"

lemma descendants_size:
  "(a, m) \<in> set (descendants ancs n) \<Longrightarrow> size m < size n"
  "(a, m) \<in> set (descendantsOfList ancs ns) \<Longrightarrow> size m < size_list size ns"
proof (induction ancs n and ancs ns arbitrary: a m and a m
    rule: descendants_descendantsOfList.induct)
  case (1 ancs t a' cs)
  from "1.prems" have "(a, m) \<in> set (descendantsOfList (t # ancs) cs)"
    by simp
  then have "size m < size_list size cs"
    by (rule "1.IH")
  then show ?case by simp
next
  case (5 ancs c cs)
  from "5.prems" consider (hd) "(a, m) = (ancs, c)" | (below) "(a, m) \<in> set (descendants ancs c)"
    | (rest) "(a, m) \<in> set (descendantsOfList ancs cs)"
    by auto
  then show ?case
  proof cases
    case hd
    then show ?thesis by simp
  next
    case below
    then have "size m < size c" by (rule "5.IH"(1))
    then show ?thesis by simp
  next
    case rest
    then have "size m < size_list size cs" by (rule "5.IH"(2))
    then show ?thesis by simp
  qed
qed simp_all

lemma querySelectorAllTag_size:
  "(a, m) \<in> set (querySelectorAllTag ancs n t) \<Longrightarrow> size m < size n"
  by (auto simp: querySelectorAllTag_def dest: descendants_size(1))

lemma querySelectorTag_size:
  "querySelectorTag ancs n t = Some (a, m) \<Longrightarrow> size m < size n"
  by (auto simp: querySelectorTag_def split: list.splits
      intro: querySelectorAllTag_size [of a m ancs n t])

section \<open>The Markdown transducer\<close>

text \<open>
  The repository holds three exporters: the plain Markdown exporter
  (\<open>exporter-markdown.js\<close>), the Markdown exporter that embeds images as base64 data,
  and the HTML exporter (\<open>exporter-html.js\<close>). The two Markdown exporters share the
  converter below, but for one test in the \<open>img\<close> case.
\<close>

datatype exporter = PlainMarkdown | ImageMarkdown | StyledHtml

text \<open>
  What the converter reads from its surroundings:
  \<^item> which exporter it is part of (the one that embeds images looks at the
    \<open>data-base64\<close> attribute of an image first);
  \<^item> \<open>element.width\<close> of an image, which the layout engine determines;
  \<^item> whether \<open>element.className\<close> is a string, which it is for an HTML element and is
    not for an SVG element (there it is an \<open>SVGAnimatedString\<close> object, which has
    neither \<open>includes\<close> nor \<open>match\<close>);
  \<^item> the text that a template literal gives for a number beyond \<open>2^53\<close> (see below).
\<close>

record settings =
  variant :: exporter
  elementWidth :: "node \<Rightarrow> nat"
  classNameIsString :: "node \<Rightarrow> bool"
  inexactNumberText :: "int \<Rightarrow> nat \<Rightarrow> string"

subsection \<open>Numbers\<close>

text \<open>
  A JavaScript number is an IEEE double. The integers of magnitude up to \<open>2^53\<close> are
  doubles, and adding one to a double below \<open>2^53\<close> is exact; \<open>2^53 + 1\<close> is not a
  double and rounds back to \<open>2^53\<close>. The item number of a list is therefore
  \<^item> \<open>NaN\<close>, or
  \<^item> \<open>Exact i\<close>, an integer with \<open>- 2^53 \<le> i \<le> 2^53\<close>, or
  \<^item> \<open>Inexact v k\<close>: the double nearest to the integer \<open>v\<close>, of magnitude beyond \<open>2^53\<close>,
    after \<open>k\<close> increments. The model does not compute with such doubles; the text that
    a template literal gives for one is read from the settings.
\<close>

datatype jsNumber = NaN | Exact int | Inexact int nat

definition exactLimit :: int where
  "exactLimit = 9007199254740992"

text \<open>
  \<open>parseInt(s, 10)\<close> skips leading white space, reads an optional sign and the longest
  run of decimal digits, and yields \<open>NaN\<close> when there is no digit.
\<close>

definition parseInt :: "string \<Rightarrow> jsNumber" where
  "parseInt s =
     (let t = dropWhile isWhiteSpace s;
          negative = (t \<noteq> [] \<and> hd t = CHR ''-'');
          u = (if t \<noteq> [] \<and> (hd t = CHR ''-'' \<or> hd t = CHR ''+'') then tl t else t);
          ds = takeWhile isDigit u;
          v = int (digitsValue ds)
      in if ds = [] then NaN
         else if v \<le> exactLimit then Exact (if negative then - v else v)
         else Inexact (if negative then - v else v) 0)"

text \<open>\<open>itemNum++\<close>: \<open>NaN\<close> stays \<open>NaN\<close>, and \<open>2^53\<close> stays \<open>2^53\<close>.\<close>

definition increment :: "jsNumber \<Rightarrow> jsNumber" where
  "increment v =
     (case v of
        NaN \<Rightarrow> NaN
      | Exact i \<Rightarrow> Exact (if i = exactLimit then i else i + 1)
      | Inexact w k \<Rightarrow> Inexact w (Suc k))"

text \<open>The text a template literal gives for a number: \<open>`${itemNum}`\<close>.\<close>

definition numberToString :: "settings \<Rightarrow> jsNumber \<Rightarrow> string" where
  "numberToString env v =
     (case v of
        NaN \<Rightarrow> ''NaN''
      | Exact i \<Rightarrow> if i < 0 then ''-'' @ natToString (nat (- i)) else natToString (nat i)
      | Inexact w k \<Rightarrow> inexactNumberText env w k)"

subsection \<open>Exceptions\<close>

text \<open>
  The converter can throw: \<open>className.includes('icon')\<close> in the \<open>img\<close> case and
  \<open>codeEl.className.match(...)\<close> in the \<open>pre\<close> case are calls of a method that does not
  exist when the \<open>className\<close> is not a string, and a list or table converter applied to
  a node that is not an element reads a property of \<open>undefined\<close>. Nothing catches the
  \<open>TypeError\<close> inside the converter, so it ends the whole conversion. A result is
  therefore \<open>Some\<close> text, or \<open>None\<close> when the exception was thrown.

  \<open>lift2\<close> and \<open>lift3\<close> build a value from the results of two or three computations
  that have run, and give the exception when one of them threw.
\<close>

definition lift2 :: "('a \<Rightarrow> 'b \<Rightarrow> 'c) \<Rightarrow> 'a option \<Rightarrow> 'b option \<Rightarrow> 'c option" where
  "lift2 f a b =
     (case a of None \<Rightarrow> None
      | Some x \<Rightarrow> (case b of None \<Rightarrow> None | Some y \<Rightarrow> Some (f x y)))"

definition lift3 ::
  "('a \<Rightarrow> 'b \<Rightarrow> 'c \<Rightarrow> 'd) \<Rightarrow> 'a option \<Rightarrow> 'b option \<Rightarrow> 'c option \<Rightarrow> 'd option" where
  "lift3 f a b c =
     (case a of None \<Rightarrow> None
      | Some x \<Rightarrow>
          (case b of None \<Rightarrow> None
           | Some y \<Rightarrow> (case c of None \<Rightarrow> None | Some z \<Rightarrow> Some (f x y z))))"

lemma lift2_simps [simp]:
  "lift2 f None b = None"
  "lift2 f a None = None"
  "lift2 f (Some x) (Some y) = Some (f x y)"
  by (simp_all add: lift2_def split: option.splits)

lemma lift3_simps [simp]:
  "lift3 f None b c = None"
  "lift3 f a None c = None"
  "lift3 f a b None = None"
  "lift3 f (Some x) (Some y) (Some z) = Some (f x y z)"
  by (simp_all add: lift3_def split: option.splits)

subsection \<open>The parts of the dispatch that do not recurse\<close>

text \<open>
  \<open>getTextContent\<close> applies \<^verbatim>\<open>.replace(/\n+/g, ' ').trim()\<close> to the converted children.
\<close>

definition flattenText :: "string \<Rightarrow> string" where
  "flattenText s = trim (newlineRunsToSpace s)"

text \<open>The class test that elides interactive chrome.\<close>

definition uiClass :: "string \<Rightarrow> bool" where
  "uiClass cls \<longleftrightarrow>
     strIncludes cls ''copy'' \<or> strIncludes cls ''edit'' \<or>
     strIncludes cls ''regenerate'' \<or> strIncludes cls ''citation-pill''"

text \<open>
  \<^verbatim>\<open>className.match(/language-([a-zA-Z0-9]+)/)\<close>: the letters and digits after the first
  \<open>language-\<close> that is followed by at least one of them; the empty string without a match.
\<close>

definition isAlnum :: "char \<Rightarrow> bool" where
  "isAlnum c \<longleftrightarrow>
     (let n = (of_char c :: nat) in
      (48 \<le> n \<and> n \<le> 57) \<or> (65 \<le> n \<and> n \<le> 90) \<or> (97 \<le> n \<and> n \<le> 122))"

fun languageOf :: "string \<Rightarrow> string" where
  "languageOf [] = []"
| "languageOf (c # cs) =
     (if startsWith (c # cs) ''language-''
         \<and> takeWhile isAlnum (drop (length ''language-'') (c # cs)) \<noteq> []
      then takeWhile isAlnum (drop (length ''language-'') (c # cs))
      else languageOf cs)"

text \<open>
  The \<open>img\<close> case of the dispatch. \<open>className.includes('icon')\<close> is evaluated when the
  two tests on \<open>src\<close> before it have failed, and throws when \<open>className\<close> is not a string.
\<close>

definition convertImage :: "settings \<Rightarrow> node \<Rightarrow> string option" where
  "convertImage env element =
     (let src = orEmpty (getAttribute element ''src'');
          alt = orEmpty (getAttribute element ''alt'');
          imgAlt = (if alt \<noteq> [] \<and> \<not> startsWith alt ''http'' then alt else ''Image'')
      in
      if strIncludes src ''favicon'' \<or> strIncludes src ''avatar'' then Some []
      else if \<not> classNameIsString env element then None
      else if strIncludes (className element) ''icon''
              \<or> (elementWidth env element \<noteq> 0 \<and> elementWidth env element < 48)
      then Some []
      else if variant env = ImageMarkdown \<and> orEmpty (getAttribute element ''data-base64'') \<noteq> []
      then Some (''\<newline>\<newline>!['' @ imgAlt @ '']('' @ orEmpty (getAttribute element ''data-base64'')
           @ '')\<newline>\<newline>'')
      else
        (let imgSrc = (if startsWith src ''blob:'' then drop 5 src else src)
         in Some (''\<newline>\<newline>!['' @ imgAlt @ '']('' @ imgSrc @ '')\<newline>\<newline>'')))"

text \<open>
  The language of a code block: \<open>codeEl.className.match(...)\<close> throws when the
  \<open>className\<close> of the \<open>code\<close> element found is not a string.
\<close>

definition codeLanguage :: "settings \<Rightarrow> (string list \<times> node) option \<Rightarrow> string option" where
  "codeLanguage env found =
     (case found of
        None \<Rightarrow> Some []
      | Some codeEl \<Rightarrow>
          if classNameIsString env (snd codeEl) then Some (languageOf (className (snd codeEl)))
          else None)"

text \<open>The href of a link with the characters that would end the link target encoded.\<close>

definition safeHref :: "string \<Rightarrow> string" where
  "safeHref href = replaceAll '')'' ''%29'' (replaceAll [CHR 0x5C] ''%5C'' href)"

definition droppedHref :: "string \<Rightarrow> bool" where
  "droppedHref href \<longleftrightarrow>
     href = [] \<or> startsWith (toLowerCase href) ''javascript:''
     \<or> startsWith (toLowerCase href) ''data:'' \<or> startsWith (toLowerCase href) ''vbscript:''
     \<or> startsWith href ''#''"

text \<open>\<^verbatim>\<open>parseInt(list.getAttribute('start') || '1', 10)\<close>.\<close>

definition startNum :: "node \<Rightarrow> jsNumber" where
  "startNum list =
     parseInt (if orEmpty (getAttribute list ''start'') \<noteq> []
               then orEmpty (getAttribute list ''start'') else ''1'')"

text \<open>The queries of the table converter.\<close>

definition tableHeaderRow :: "string list \<Rightarrow> node \<Rightarrow> (string list \<times> node) option" where
  "tableHeaderRow ancs table =
     (case filter (\<lambda>(a, n). hasTag ''tr'' n \<and> ''thead'' \<in> set a) (descendants ancs table) of
        [] \<Rightarrow> None
      | x # xs \<Rightarrow> Some x)"

definition tableBodyRows :: "string list \<Rightarrow> node \<Rightarrow> (string list \<times> node) list" where
  "tableBodyRows ancs table =
     filter (\<lambda>(a, n). hasTag ''tr'' n \<and> ''tbody'' \<in> set a) (descendants ancs table)"

definition rowCells :: "string list \<Rightarrow> node \<Rightarrow> (string list \<times> node) list" where
  "rowCells ancs tr = filter (\<lambda>(a, n). hasTag ''td'' n \<or> hasTag ''th'' n) (descendants ancs tr)"

lemma tableHeaderRow_size:
  "tableHeaderRow ancs table = Some (a, m) \<Longrightarrow> size m < size table"
proof -
  assume "tableHeaderRow ancs table = Some (a, m)"
  then obtain xs where
    "filter (\<lambda>(a, n). hasTag ''tr'' n \<and> ''thead'' \<in> set a) (descendants ancs table)
       = (a, m) # xs"
    by (auto simp: tableHeaderRow_def split: list.splits)
  then have "(a, m) \<in> set (filter (\<lambda>(a, n). hasTag ''tr'' n \<and> ''thead'' \<in> set a)
      (descendants ancs table))"
    by simp
  then have "(a, m) \<in> set (descendants ancs table)"
    by simp
  then show ?thesis by (rule descendants_size(1))
qed

lemma tableBodyRows_size:
  "(a, m) \<in> set (tableBodyRows ancs table) \<Longrightarrow> size m < size table"
  by (auto simp: tableBodyRows_def dest: descendants_size(1))

lemma rowCells_size: "(a, m) \<in> set (rowCells ancs tr) \<Longrightarrow> size m < size tr"
  by (auto simp: rowCells_def dest: descendants_size(1))

lemma querySelectorTag_size_snd:
  "querySelectorTag ancs n t = Some x \<Longrightarrow> size (snd x) < size n"
  by (cases x) (auto dest: querySelectorTag_size)

lemma tableHeaderCell_size:
  assumes "tableHeaderRow ancs table = Some hr"
    and "x \<in> set (querySelectorAllTag (fst hr) (snd hr) t)"
  shows "Suc (size (snd x)) < size table"
proof -
  have "size (snd hr) < size table"
    using assms(1) tableHeaderRow_size [of ancs table "fst hr" "snd hr"] by simp
  moreover have "size (snd x) < size (snd hr)"
    using assms(2) querySelectorAllTag_size [of "fst x" "snd x" "fst hr" "snd hr" t] by simp
  ultimately show ?thesis by simp
qed

lemma tableBodyCell_size:
  assumes "tr \<in> set (tableBodyRows ancs table)"
    and "x \<in> set (rowCells (fst tr) (snd tr))"
  shows "Suc (size (snd x)) < size table"
proof -
  have "size (snd tr) < size table"
    using assms(1) tableBodyRows_size [of "fst tr" "snd tr" ancs table] by simp
  moreover have "size (snd x) < size (snd tr)"
    using assms(2) rowCells_size [of "fst x" "snd x" "fst tr" "snd tr"] by simp
  ultimately show ?thesis by simp
qed

subsection \<open>The converter\<close>

text \<open>
  \<open>ancs\<close> are the tag names of the ancestors of the node, nearest first
  (\<open>element.parentElement\<close> is the first of them); the children of an element are
  converted with the element's tag put in front. A query result is a pair of the
  ancestors of the node found and the node.

  \<open>listItems\<close> is the loop over \<open>list.querySelectorAll(':scope > li')\<close>, and
  \<open>listItemText\<close> and \<open>listItemNested\<close> are the two strings that the loop over the child
  nodes of an item accumulates.
\<close>

function convertElementToMarkdown :: "settings \<Rightarrow> string list \<Rightarrow> node \<Rightarrow> string option"
  and processChildNodes :: "settings \<Rightarrow> string list \<Rightarrow> node list \<Rightarrow> string option"
  and convertListToMarkdown :: "settings \<Rightarrow> string list \<Rightarrow> node \<Rightarrow> nat \<Rightarrow> string option"
  and listItems ::
    "settings \<Rightarrow> string list \<Rightarrow> bool \<Rightarrow> nat \<Rightarrow> jsNumber \<Rightarrow> node list \<Rightarrow> string list option"
  and listItemText :: "settings \<Rightarrow> string list \<Rightarrow> node list \<Rightarrow> string option"
  and listItemNested :: "settings \<Rightarrow> string list \<Rightarrow> nat \<Rightarrow> node list \<Rightarrow> string option"
  and convertTableToMarkdown :: "settings \<Rightarrow> string list \<Rightarrow> node \<Rightarrow> string option"
where
  "convertElementToMarkdown env ancs (TextNode s) = Some s"
| "convertElementToMarkdown env ancs (Comment s) = Some []"
| "convertElementToMarkdown env ancs (Element tag attrs cs) =
     (if tag = ''button'' then
        (case querySelectorTag ancs (Element tag attrs cs) ''img'' of
           Some img \<Rightarrow> convertElementToMarkdown env (fst img) (snd img)
         | None \<Rightarrow> Some [])
      else if tag \<in> set [''svg'', ''script'', ''style'', ''noscript''] then Some []
      else if classNameIsString env (Element tag attrs cs)
              \<and> uiClass (className (Element tag attrs cs)) then Some []
      else if tag = ''h1'' then
        map_option (\<lambda>s. ''\<newline>\<newline># '' @ flattenText s @ ''\<newline>\<newline>'')
          (processChildNodes env (tag # ancs) cs)
      else if tag = ''h2'' then
        map_option (\<lambda>s. ''\<newline>\<newline>## '' @ flattenText s @ ''\<newline>\<newline>'')
          (processChildNodes env (tag # ancs) cs)
      else if tag = ''h3'' then
        map_option (\<lambda>s. ''\<newline>\<newline>### '' @ flattenText s @ ''\<newline>\<newline>'')
          (processChildNodes env (tag # ancs) cs)
      else if tag = ''h4'' then
        map_option (\<lambda>s. ''\<newline>\<newline>#### '' @ flattenText s @ ''\<newline>\<newline>'')
          (processChildNodes env (tag # ancs) cs)
      else if tag = ''h5'' then
        map_option (\<lambda>s. ''\<newline>\<newline>##### '' @ flattenText s @ ''\<newline>\<newline>'')
          (processChildNodes env (tag # ancs) cs)
      else if tag = ''h6'' then
        map_option (\<lambda>s. ''\<newline>\<newline>###### '' @ flattenText s @ ''\<newline>\<newline>'')
          (processChildNodes env (tag # ancs) cs)
      else if tag = ''p'' then
        map_option (\<lambda>s. ''\<newline>\<newline>'' @ s @ ''\<newline>\<newline>'') (processChildNodes env (tag # ancs) cs)
      else if tag = ''strong'' \<or> tag = ''b'' then
        map_option (\<lambda>s. ''**'' @ s @ ''**'') (processChildNodes env (tag # ancs) cs)
      else if tag = ''em'' \<or> tag = ''i'' then
        map_option (\<lambda>s. ''*'' @ s @ ''*'') (processChildNodes env (tag # ancs) cs)
      else if tag = ''code'' then
        (if ancs \<noteq> [] \<and> hd ancs = ''pre'' then Some (textContent (Element tag attrs cs))
         else Some ([CHR 0x60] @ textContent (Element tag attrs cs) @ [CHR 0x60]))
      else if tag = ''pre'' then
        map_option
          (\<lambda>lang. ''\<newline>\<newline>'' @ fence @ lang @ ''\<newline>'' @ trim (textContent (Element tag attrs cs))
             @ ''\<newline>'' @ fence @ ''\<newline>\<newline>'')
          (codeLanguage env (querySelectorTag ancs (Element tag attrs cs) ''code''))
      else if tag = ''ul'' \<or> tag = ''ol'' then
        map_option (\<lambda>s. ''\<newline>\<newline>'' @ s @ ''\<newline>\<newline>'')
          (convertListToMarkdown env ancs (Element tag attrs cs) 0)
      else if tag = ''table'' then convertTableToMarkdown env ancs (Element tag attrs cs)
      else if tag = ''img'' then convertImage env (Element tag attrs cs)
      else if tag = ''canvas'' then Some ''\<newline>\<newline>[Canvas Image]\<newline>\<newline>''
      else if tag = ''br'' then Some ''\<newline>''
      else if tag = ''hr'' then Some ''\<newline>\<newline>---\<newline>\<newline>''
      else if tag = ''a'' then
        (let href = trim (orEmpty (getAttribute (Element tag attrs cs) ''href'')) in
         if droppedHref href then processChildNodes env (tag # ancs) cs
         else
           map_option
             (\<lambda>s. let text = (if flattenText s \<noteq> [] then flattenText s else href)
                  in ''['' @ escapeMarkdownText text @ '']('' @ safeHref href @ '')'')
             (processChildNodes env (tag # ancs) cs))
      else if tag = ''blockquote'' then
        map_option (\<lambda>s. ''\<newline>\<newline>> '' @ replaceNewlines ''\<newline>> '' s @ ''\<newline>\<newline>'')
          (processChildNodes env (tag # ancs) cs)
      else if tag \<in> set [''span'', ''div'', ''article'', ''section'', ''main'', ''header'',
                          ''footer'', ''aside'', ''nav''] then
        processChildNodes env (tag # ancs) cs
      else if tag = ''template'' then Some []
      else processChildNodes env (tag # ancs) cs)"
| "processChildNodes env ancs [] = Some []"
| "processChildNodes env ancs (c # cs) =
     lift2 append (convertElementToMarkdown env ancs c) (processChildNodes env ancs cs)"
| "convertListToMarkdown env ancs (Element tag attrs cs) indent =
     map_option (join ''\<newline>'')
       (listItems env (tag # ancs) (tag = ''ol'') indent
          (startNum (Element tag attrs cs)) cs)"
| "convertListToMarkdown env ancs (TextNode s) indent = None"
| "convertListToMarkdown env ancs (Comment s) indent = None"
| "listItems env ancs isOrdered indent itemNum [] = Some []"
| "listItems env ancs isOrdered indent itemNum (c # cs) =
     (case c of
        Element t a lcs \<Rightarrow>
          if t = ''li'' then
            lift3
              (\<lambda>textContent nestedLists rest.
                 (let prefix = (if isOrdered then numberToString env itemNum @ ''.'' else ''-'');
                      cleanText = trim (replaceNewlines '' '' textContent)
                  in (if cleanText \<noteq> []
                      then [concat (replicate indent ''  '') @ prefix @ '' '' @ cleanText]
                      else [])
                     @ (if nestedLists \<noteq> [] then [trimEnd nestedLists] else [])
                     @ rest))
              (listItemText env (t # ancs) lcs)
              (listItemNested env (t # ancs) indent lcs)
              (listItems env ancs isOrdered indent (increment itemNum) cs)
          else listItems env ancs isOrdered indent itemNum cs
      | TextNode s \<Rightarrow> listItems env ancs isOrdered indent itemNum cs
      | Comment s \<Rightarrow> listItems env ancs isOrdered indent itemNum cs)"
| "listItemText env ancs [] = Some []"
| "listItemText env ancs (c # cs) =
     lift2 append
       (case c of
          Element t a ccs \<Rightarrow>
            if t = ''ul'' \<or> t = ''ol'' then Some [] else convertElementToMarkdown env ancs c
        | TextNode s \<Rightarrow> Some s
        | Comment s \<Rightarrow> Some [])
       (listItemText env ancs cs)"
| "listItemNested env ancs indent [] = Some []"
| "listItemNested env ancs indent (c # cs) =
     lift2 append
       (case c of
          Element t a ccs \<Rightarrow>
            if t = ''ul'' \<or> t = ''ol'' then convertListToMarkdown env ancs c (indent + 1)
            else Some []
        | TextNode s \<Rightarrow> Some []
        | Comment s \<Rightarrow> Some [])
       (listItemNested env ancs indent cs)"
| "convertTableToMarkdown env ancs (Element tag attrs cs) =
     lift2
       (\<lambda>headerLines bodyLines.
          (let rows = headerLines @ concat bodyLines
           in if rows \<noteq> [] then ''\<newline>\<newline>'' @ join ''\<newline>'' rows @ ''\<newline>\<newline>'' else []))
       (case tableHeaderRow ancs (Element tag attrs cs) of
          None \<Rightarrow> Some []
        | Some headerRow \<Rightarrow>
            map_option
              (\<lambda>headers.
                 if headers \<noteq> []
                 then [''| '' @ join '' | '' headers @ '' |'',
                       ''| '' @ join '' | '' (map (\<lambda>h. ''---'') headers) @ '' |'']
                 else [])
              (those
                 (map (\<lambda>th. map_option (\<lambda>s. trim (replaceNewlines '' '' s))
                               (convertElementToMarkdown env (fst th) (snd th)))
                    (querySelectorAllTag (fst headerRow) (snd headerRow) ''th''))))
       (those
          (map (\<lambda>tr.
              map_option
                (\<lambda>cells. if cells \<noteq> [] then [''| '' @ join '' | '' cells @ '' |''] else [])
                (those
                   (map (\<lambda>cell. map_option (\<lambda>s. trim (replaceNewlines '' '' s))
                                   (convertElementToMarkdown env (fst cell) (snd cell)))
                      (rowCells (fst tr) (snd tr)))))
            (tableBodyRows ancs (Element tag attrs cs))))"
| "convertTableToMarkdown env ancs (TextNode s) = None"
| "convertTableToMarkdown env ancs (Comment s) = None"
  by pat_completeness auto
termination
  apply (relation "measure
    (case_sum
      (case_sum (\<lambda>(env, ancs, n). 2 * size n + 1)
        (case_sum (\<lambda>(env, ancs, ns). 2 * size_list size ns)
                  (\<lambda>(env, ancs, n, indent). 2 * size n)))
      (case_sum
        (case_sum (\<lambda>(env, ancs, isOrdered, indent, itemNum, ns). 2 * size_list size ns)
                  (\<lambda>(env, ancs, ns). 2 * size_list size ns))
        (case_sum (\<lambda>(env, ancs, indent, ns). 2 * size_list size ns)
                  (\<lambda>(env, ancs, n). 2 * size n))))")
  apply simp_all
  subgoal for ancs tag attrs cs x2
    by (drule querySelectorTag_size_snd) (simp add: case_prod_beta)
  subgoal for ancs tag attrs cs x2 x
    by (drule (1) tableHeaderCell_size) (simp add: case_prod_beta)
  subgoal for ancs tag attrs cs x xa
    by (drule (1) tableBodyCell_size) (simp add: case_prod_beta)
  done

declare convertElementToMarkdown.simps(3) [simp del]

text \<open>\<open>getTextContent(element)\<close>.\<close>

definition getTextContent :: "settings \<Rightarrow> string list \<Rightarrow> node \<Rightarrow> string option" where
  "getTextContent env ancs element =
     map_option flattenText
       (processChildNodes env (tagName element # ancs) (childNodes element))"

subsection \<open>Example settings and evaluation\<close>

text \<open>
  Settings for a page of HTML elements only, laid out with no width information.
\<close>

definition plainSettings :: settings where
  "plainSettings =
     \<lparr>variant = PlainMarkdown, elementWidth = (\<lambda>n. 0), classNameIsString = (\<lambda>n. True),
      inexactNumberText = (\<lambda>v k. [])\<rparr>"

lemmas transducer_eval =
  convertElementToMarkdown.simps(3) querySelectorTag_def querySelectorAllTag_def hasTag_def
  convertImage_def codeLanguage_def orEmpty_def startsWith_def className_def uiClass_def
  plainSettings_def
  droppedHref_def flattenText_def trim_def trimStart_def trimEnd_def isWhiteSpace_def
  toLowerCase_def toLowerChar_def escapeMarkdownText_def safeHref_def replaceNewlines_def
  startNum_def parseInt_def isDigit_def digitsValue_def numberToString_def increment_def
  exactLimit_def natToString.simps isNewline_def char_of_eq_iff

subsection \<open>The dispatch rules used below\<close>

lemma convert_button:
  "convertElementToMarkdown env ancs (Element ''button'' attrs cs) =
     (case querySelectorTag ancs (Element ''button'' attrs cs) ''img'' of
        Some img \<Rightarrow> convertElementToMarkdown env (fst img) (snd img)
      | None \<Rightarrow> Some [])"
  by (simp add: convertElementToMarkdown.simps(3))

lemma convert_uiClass:
  "tag \<noteq> ''button'' \<Longrightarrow> classNameIsString env (Element tag attrs cs) \<Longrightarrow>
   uiClass (className (Element tag attrs cs)) \<Longrightarrow>
   convertElementToMarkdown env ancs (Element tag attrs cs) = Some []"
  by (simp add: convertElementToMarkdown.simps(3))

lemma convert_anchor:
  "\<not> (classNameIsString env (Element ''a'' attrs cs)
      \<and> uiClass (className (Element ''a'' attrs cs))) \<Longrightarrow>
   convertElementToMarkdown env ancs (Element ''a'' attrs cs) =
     (let href = trim (orEmpty (getAttribute (Element ''a'' attrs cs) ''href'')) in
         if droppedHref href then processChildNodes env (''a'' # ancs) cs
         else
           map_option
             (\<lambda>s. let text = (if flattenText s \<noteq> [] then flattenText s else href)
                  in ''['' @ escapeMarkdownText text @ '']('' @ safeHref href @ '')'')
             (processChildNodes env (''a'' # ancs) cs))"
  by (auto simp add: convertElementToMarkdown.simps(3))

subsection \<open>Escaping, character by character\<close>

lemma replaceAll_char:
  "replaceAll [p] rep s = concat (map (\<lambda>c. if c = p then rep else [c]) s)"
  by (induction s) simp_all

lemma concat_map_concat_map:
  "concat (map f (concat (map g xs))) = concat (map (\<lambda>x. concat (map f (g x))) xs)"
  by (induction xs) simp_all

text \<open>What the three replacements of \<open>escapeMarkdownText\<close> do to one character.\<close>

definition escapeChar :: "char \<Rightarrow> string" where
  "escapeChar c =
     (if c = CHR 0x5C \<or> c = CHR ''['' \<or> c = CHR '']'' then [CHR 0x5C, c] else [c])"

text \<open>What the two replacements of the link target do to one character.\<close>

definition hrefChar :: "char \<Rightarrow> string" where
  "hrefChar c = (if c = CHR 0x5C then ''%5C'' else if c = CHR '')'' then ''%29'' else [c])"

lemma escapeMarkdownText_chars: "escapeMarkdownText t = concat (map escapeChar t)"
proof -
  have "(\<lambda>x. concat (map (\<lambda>c. if c = CHR '']'' then [CHR 0x5C, CHR '']''] else [c])
          (concat (map (\<lambda>c. if c = CHR ''['' then [CHR 0x5C, CHR ''[''] else [c])
             (if x = CHR 0x5C then [CHR 0x5C, CHR 0x5C] else [x]))))) = escapeChar"
    by (rule ext) (simp add: escapeChar_def)
  then show ?thesis
    by (simp add: escapeMarkdownText_def replaceAll_char concat_map_concat_map)
qed

lemma safeHref_chars: "safeHref h = concat (map hrefChar h)"
proof -
  have "(\<lambda>x. concat (map (\<lambda>c. if c = CHR '')'' then ''%29'' else [c])
          (if x = CHR 0x5C then ''%5C'' else [x]))) = hrefChar"
    by (rule ext) (simp add: hrefChar_def)
  then show ?thesis
    by (simp add: safeHref_def replaceAll_char concat_map_concat_map)
qed

subsection \<open>Claim C6: elision by class name\<close>

definition copyButton :: node where
  "copyButton =
     Element ''button'' [(''class'', ''copy-btn'')]
       [Element ''img'' [(''src'', ''https://x.test/pic.png'')] []]"

text \<open>
  An SVG group with class \<open>copy\<close>, and settings in which the \<open>className\<close> of a \<open>g\<close>
  element is not a string.
\<close>

definition svgGroup :: node where
  "svgGroup = Element ''g'' [(''class'', ''copy'')] [TextNode ''t'']"

definition svgSettings :: settings where
  "svgSettings = plainSettings\<lparr>classNameIsString := (\<lambda>n. tagName n \<noteq> ''g'')\<rparr>"

text \<open>
  As stated, the claim says that the class check comes before any tag dispatch and so
  applies to a \<open>button\<close> too. In the code the \<open>button\<close> test comes first (``but check
  button for images first''): a button whose class contains \<open>copy\<close> and which wraps an
  image is converted to that image. And the class check is guarded by
  \<^verbatim>\<open>typeof className === 'string'\<close>: an SVG element whose class attribute is \<open>copy\<close> is
  converted to the conversion of its children.
\<close>

theorem button_class_counterexample:
  "uiClass (className copyButton)
   \<and> convertElementToMarkdown plainSettings [] copyButton
       = Some ''\<newline>\<newline>![Image](https://x.test/pic.png)\<newline>\<newline>''
   \<and> uiClass (className svgGroup)
   \<and> convertElementToMarkdown svgSettings [] svgGroup = Some ''t''"
  by (simp add: copyButton_def svgGroup_def svgSettings_def transducer_eval)

text \<open>
  Claim C6, amended. \<open>convertElementToMarkdown\<close>, applied to an element other than a
  \<open>button\<close> whose \<open>className\<close> is a string (an HTML element) and whose class attribute
  contains \<open>copy\<close>, \<open>edit\<close>, \<open>regenerate\<close> or \<open>citation-pill\<close>, returns the empty string,
  whatever the tag and the ancestors of the element: the class check precedes the
  dispatch on the tag. A \<open>button\<close> is handled before the class check: whatever its class,
  it is converted to the conversion of the first image below it when there is one, and
  to the empty string otherwise.

  The check is made where \<open>convertElementToMarkdown\<close> is applied, and not elsewhere:
  \<^item> the list converter reads the items of a list itself, so the attributes of an \<open>li\<close>
    that is a direct child of a list, its class among them, make no difference;
  \<^item> it converts a \<open>ul\<close> or \<open>ol\<close> that is a direct child of such an item itself, and the
    attributes of that list other than \<open>start\<close> make no difference;
  \<^item> a \<open>code\<close> element that is not itself elided yields its text content, whatever the
    classes of the elements below it.
\<close>

theorem class_elision:
  "(tag \<noteq> ''button'' \<and> classNameIsString env (Element tag attrs cs) \<and>
      (strIncludes (orEmpty (map_of attrs ''class'')) ''copy''
       \<or> strIncludes (orEmpty (map_of attrs ''class'')) ''edit''
       \<or> strIncludes (orEmpty (map_of attrs ''class'')) ''regenerate''
       \<or> strIncludes (orEmpty (map_of attrs ''class'')) ''citation-pill'')
    \<longrightarrow> convertElementToMarkdown env ancs (Element tag attrs cs) = Some [])
   \<and> convertElementToMarkdown env ancs (Element ''button'' attrs cs) =
       (case querySelectorTag ancs (Element ''button'' attrs cs) ''img'' of
          Some img \<Rightarrow> convertElementToMarkdown env (fst img) (snd img)
        | None \<Rightarrow> Some [])
   \<and> listItems env ancs isOrdered indent itemNum (Element ''li'' attrs cs # rest) =
       listItems env ancs isOrdered indent itemNum (Element ''li'' [] cs # rest)
   \<and> ((tag = ''ul'' \<or> tag = ''ol'') \<and> map_of attrs ''start'' = map_of attrs' ''start''
      \<longrightarrow> listItemNested env ancs indent (Element tag attrs cs # rest) =
          listItemNested env ancs indent (Element tag attrs' cs # rest))
   \<and> (\<not> (classNameIsString env (Element ''code'' attrs cs)
           \<and> uiClass (orEmpty (map_of attrs ''class'')))
      \<longrightarrow> convertElementToMarkdown env ancs (Element ''code'' attrs cs) =
          Some (if ancs \<noteq> [] \<and> hd ancs = ''pre'' then concat (map textContent cs)
                else [CHR 0x60] @ concat (map textContent cs) @ [CHR 0x60]))"
proof (intro conjI impI)
  assume a: "tag \<noteq> ''button'' \<and> classNameIsString env (Element tag attrs cs) \<and>
      (strIncludes (orEmpty (map_of attrs ''class'')) ''copy''
       \<or> strIncludes (orEmpty (map_of attrs ''class'')) ''edit''
       \<or> strIncludes (orEmpty (map_of attrs ''class'')) ''regenerate''
       \<or> strIncludes (orEmpty (map_of attrs ''class'')) ''citation-pill'')"
  then have "uiClass (className (Element tag attrs cs))"
    by (simp add: uiClass_def className_def)
  with a show "convertElementToMarkdown env ancs (Element tag attrs cs) = Some []"
    by (simp add: convert_uiClass)
next
  show "convertElementToMarkdown env ancs (Element ''button'' attrs cs) =
       (case querySelectorTag ancs (Element ''button'' attrs cs) ''img'' of
          Some img \<Rightarrow> convertElementToMarkdown env (fst img) (snd img)
        | None \<Rightarrow> Some [])"
    by (rule convert_button)
next
  show "listItems env ancs isOrdered indent itemNum (Element ''li'' attrs cs # rest) =
       listItems env ancs isOrdered indent itemNum (Element ''li'' [] cs # rest)"
    by simp
next
  assume "(tag = ''ul'' \<or> tag = ''ol'') \<and> map_of attrs ''start'' = map_of attrs' ''start''"
  then show "listItemNested env ancs indent (Element tag attrs cs # rest) =
          listItemNested env ancs indent (Element tag attrs' cs # rest)"
    by (auto simp add: startNum_def)
next
  assume "\<not> (classNameIsString env (Element ''code'' attrs cs)
           \<and> uiClass (orEmpty (map_of attrs ''class'')))"
  then show "convertElementToMarkdown env ancs (Element ''code'' attrs cs) =
          Some (if ancs \<noteq> [] \<and> hd ancs = ''pre'' then concat (map textContent cs)
                else [CHR 0x60] @ concat (map textContent cs) @ [CHR 0x60])"
    by (auto simp add: convertElementToMarkdown.simps(3) className_def)
qed

theorem class_elision_witness:
  "convertElementToMarkdown plainSettings [''div'']
     (Element ''span'' [(''class'', ''btn regenerate-answer'')] [TextNode ''Regenerate''])
     = Some []
   \<and> convertElementToMarkdown plainSettings []
     (Element ''button'' [(''class'', ''copy'')] [TextNode ''Copy code'']) = Some []
   \<and> listItemNested plainSettings [''li'', ''ul''] 0
       [Element ''ul'' [(''class'', ''edit'')]
          [Element ''li'' [(''class'', ''copy'')] [TextNode ''x'']]]
     = Some ''  - x''
   \<and> convertElementToMarkdown plainSettings [''p'']
       (Element ''code'' [] [Element ''span'' [(''class'', ''copy'')] [TextNode ''y'']])
     = Some ([CHR 0x60] @ ''y'' @ [CHR 0x60])"
  using class_elision [where tag = "''span''" and env = plainSettings
      and attrs = "[(''class'', ''btn regenerate-answer'')]"
      and cs = "[TextNode ''Regenerate'']" and ancs = "[''div'']"]
    class_elision [where tag = "''button''" and env = plainSettings
      and attrs = "[(''class'', ''copy'')]" and cs = "[TextNode ''Copy code'']"
      and ancs = "[]"]
    class_elision [where tag = "''ul''" and env = plainSettings
      and attrs = "[(''class'', ''edit'')]" and attrs' = "[]"
      and cs = "[Element ''li'' [(''class'', ''copy'')] [TextNode ''x'']]"
      and ancs = "[''li'', ''ul'']" and indent = 0 and rest = "[]"]
    class_elision [where tag = "''code''" and env = plainSettings and attrs = "[]"
      and cs = "[Element ''span'' [(''class'', ''copy'')] [TextNode ''y'']]"
      and ancs = "[''p'']"]
  by (simp add: transducer_eval)

subsection \<open>Claim C7: links\<close>

definition editLink :: node where
  "editLink =
     Element ''a'' [(''href'', ''https://e.test/''), (''class'', ''edit-link'')] [TextNode ''see'']"

text \<open>
  As stated, the claim speaks of every anchor element. An anchor whose class contains
  one of the elided names never reaches the \<open>a\<close> case: it is converted to the empty
  string, neither to its children nor to a link.
\<close>

theorem anchor_class_counterexample:
  "trim (orEmpty (getAttribute editLink ''href'')) = ''https://e.test/''
   \<and> getTextContent plainSettings [] editLink = Some ''see''
   \<and> convertElementToMarkdown plainSettings [] editLink = Some []"
  by (simp add: editLink_def getTextContent_def transducer_eval)

text \<open>
  Claim C7, amended. For every anchor element that is not elided by the class rule:
  with \<open>href\<close> the trimmed \<open>href\<close> attribute (empty when absent), if \<open>href\<close> is empty, or
  starts, case-insensitively, with \<open>javascript:\<close>, \<open>data:\<close> or \<open>vbscript:\<close>, or starts
  with \<open>#\<close>, the converter emits only the conversion of the element's children, with no
  link syntax; for every other such anchor it emits \<open>[text](href)\<close>, where \<open>text\<close> is the
  flattened inner text, or \<open>href\<close> when that is empty, with a backslash put before
  every backslash and square bracket, and where in \<open>href\<close> every backslash is replaced
  by \<open>%5C\<close> and every closing parenthesis by \<open>%29\<close>. (When the conversion of the
  children throws, so does the conversion of the anchor.)
\<close>

theorem link_conversion:
  "\<not> (classNameIsString env (Element ''a'' attrs cs)
      \<and> uiClass (orEmpty (map_of attrs ''class''))) \<longrightarrow>
   (let href = trim (orEmpty (map_of attrs ''href''));
        children = processChildNodes env (''a'' # ancs) cs
    in convertElementToMarkdown env ancs (Element ''a'' attrs cs) =
       (if href = [] \<or> startsWith (toLowerCase href) ''javascript:''
           \<or> startsWith (toLowerCase href) ''data:''
           \<or> startsWith (toLowerCase href) ''vbscript:'' \<or> startsWith href ''#''
        then children
        else map_option
               (\<lambda>inner. let text = (if inner \<noteq> [] then inner else href)
                       in ''['' @ concat (map escapeChar text) @ '']('' @ concat (map hrefChar href)
                          @ '')'')
               (getTextContent env ancs (Element ''a'' attrs cs))))"
proof
  assume "\<not> (classNameIsString env (Element ''a'' attrs cs)
      \<and> uiClass (orEmpty (map_of attrs ''class'')))"
  then have "\<not> (classNameIsString env (Element ''a'' attrs cs)
      \<and> uiClass (className (Element ''a'' attrs cs)))"
    by (simp add: className_def)
  then have "convertElementToMarkdown env ancs (Element ''a'' attrs cs) =
     (let href = trim (orEmpty (getAttribute (Element ''a'' attrs cs) ''href'')) in
         if droppedHref href then processChildNodes env (''a'' # ancs) cs
         else
           map_option
             (\<lambda>s. let text = (if flattenText s \<noteq> [] then flattenText s else href)
                  in ''['' @ escapeMarkdownText text @ '']('' @ safeHref href @ '')'')
             (processChildNodes env (''a'' # ancs) cs))"
    by (rule convert_anchor)
  then show "let href = trim (orEmpty (map_of attrs ''href''));
        children = processChildNodes env (''a'' # ancs) cs
    in convertElementToMarkdown env ancs (Element ''a'' attrs cs) =
       (if href = [] \<or> startsWith (toLowerCase href) ''javascript:''
           \<or> startsWith (toLowerCase href) ''data:''
           \<or> startsWith (toLowerCase href) ''vbscript:'' \<or> startsWith href ''#''
        then children
        else map_option
               (\<lambda>inner. let text = (if inner \<noteq> [] then inner else href)
                       in ''['' @ concat (map escapeChar text) @ '']('' @ concat (map hrefChar href)
                          @ '')'')
               (getTextContent env ancs (Element ''a'' attrs cs)))"
    by (simp add: Let_def droppedHref_def getTextContent_def option.map_comp comp_def
        escapeMarkdownText_chars safeHref_chars)
qed

theorem link_conversion_witness:
  "convertElementToMarkdown plainSettings []
     (Element ''a'' [(''href'', '' JavaScript:alert(1) '')]
        [TextNode ''click '', Element ''b'' [] [TextNode ''me'']]) = Some ''click **me**''
   \<and> convertElementToMarkdown plainSettings []
     (Element ''a'' [(''href'', ''https://e.test/a)b'')] [TextNode ''see [1]''])
     = Some (''[see '' @ [CHR 0x5C] @ ''[1'' @ [CHR 0x5C] @ '']](https://e.test/a%29b)'')"
  using link_conversion [where env = plainSettings
      and attrs = "[(''href'', '' JavaScript:alert(1) '')]"
      and cs = "[TextNode ''click '', Element ''b'' [] [TextNode ''me'']]" and ancs = "[]"]
    link_conversion [where env = plainSettings and attrs = "[(''href'', ''https://e.test/a)b'')]"
      and cs = "[TextNode ''see [1]'']" and ancs = "[]"]
  by (simp add: Let_def getTextContent_def escapeChar_def hrefChar_def transducer_eval)

subsection \<open>Claim C9: the list converter\<close>

subsubsection \<open>The result of a list conversion does not end in white space\<close>

text \<open>
  The code pushes \<open>nestedLists.trimEnd()\<close>. The text of a converted list never ends in
  white space (every line ends with the trimmed, non-empty text of an item), so the
  \<open>trimEnd\<close> changes nothing.
\<close>

definition endsClean :: "string \<Rightarrow> bool" where
  "endsClean r \<longleftrightarrow> r = [] \<or> \<not> isWhiteSpace (last r)"

lemma trimEnd_endsClean: "endsClean r \<Longrightarrow> trimEnd r = r"
  by (cases r rule: rev_cases) (simp_all add: endsClean_def trimEnd_def)

lemma endsClean_trimEnd: "endsClean (trimEnd s)"
proof (cases "dropWhile isWhiteSpace (rev s)")
  case Nil
  then show ?thesis by (simp add: endsClean_def trimEnd_def)
next
  case (Cons c cs)
  then have "\<not> isWhiteSpace c"
    using hd_dropWhile [of isWhiteSpace "rev s"] by simp
  with Cons show ?thesis by (simp add: endsClean_def trimEnd_def)
qed

lemma endsClean_trim: "endsClean (trim s)"
  by (simp add: trim_def endsClean_trimEnd)

lemma endsClean_append: "endsClean a \<Longrightarrow> endsClean b \<Longrightarrow> endsClean (a @ b)"
  by (cases "b = []") (simp_all add: endsClean_def)

lemma endsClean_append_right: "b \<noteq> [] \<Longrightarrow> endsClean b \<Longrightarrow> endsClean (a @ b)"
  by (simp add: endsClean_def)

lemma join_Cons: "join sep (x # xs) = (if xs = [] then x else x @ sep @ join sep xs)"
  by (cases xs) simp_all

lemma join_eq_Nil: "\<forall>x\<in>set xs. x \<noteq> [] \<Longrightarrow> join sep xs = [] \<longleftrightarrow> xs = []"
  by (cases xs) (simp_all add: join_Cons)

lemma endsClean_join:
  "\<forall>x\<in>set xs. x \<noteq> [] \<and> endsClean x \<Longrightarrow> endsClean (join sep xs)"
proof (induction xs)
  case Nil
  show ?case by (simp add: endsClean_def)
next
  case (Cons x xs)
  show ?case
  proof (cases "xs = []")
    case True
    with Cons.prems show ?thesis by (simp add: join_Cons)
  next
    case False
    have "join sep xs \<noteq> []"
      using False Cons.prems join_eq_Nil [of xs sep] by simp
    moreover have "endsClean (join sep xs)"
      using Cons by simp
    ultimately have "endsClean (x @ sep @ join sep xs)"
      using endsClean_append_right [of "join sep xs" "x @ sep"] by simp
    with False show ?thesis by (simp add: join_Cons)
  qed
qed

lemma lift2_eq_Some:
  "lift2 f a b = Some r \<longleftrightarrow> (\<exists>x y. a = Some x \<and> b = Some y \<and> r = f x y)"
  by (cases a; cases b) auto

lemma lift3_eq_Some:
  "lift3 f a b c = Some r \<longleftrightarrow> (\<exists>x y z. a = Some x \<and> b = Some y \<and> c = Some z \<and> r = f x y z)"
  by (cases a; cases b; cases c) auto

definition listClean :: "settings \<Rightarrow> node \<Rightarrow> bool" where
  "listClean env c \<longleftrightarrow>
     (\<forall>ancs indent r. convertListToMarkdown env ancs c indent = Some r \<longrightarrow> endsClean r)"

lemma listItemNested_endsClean:
  "\<forall>c\<in>set cs. listClean env c \<Longrightarrow> listItemNested env ancs indent cs = Some r \<Longrightarrow>
   endsClean r"
proof (induction cs arbitrary: r)
  case Nil
  then show ?case by (simp add: endsClean_def)
next
  case (Cons c cs)
  from Cons.prems(2) obtain x y where
    x: "(case c of
          Element t a ccs \<Rightarrow>
            if t = ''ul'' \<or> t = ''ol'' then convertListToMarkdown env ancs c (indent + 1)
            else Some []
        | TextNode s \<Rightarrow> Some []
        | Comment s \<Rightarrow> Some []) = Some x"
    and y: "listItemNested env ancs indent cs = Some y" and r: "r = x @ y"
    by (auto simp add: lift2_eq_Some)
  have "endsClean y"
    using Cons.IH [of y] Cons.prems(1) y by simp
  moreover have "endsClean x"
    using x Cons.prems(1)
    by (cases c) (auto simp add: listClean_def endsClean_def split: if_splits)
  ultimately show ?case
    using r by (simp add: endsClean_append)
qed

lemma listItems_endsClean:
  "\<forall>li\<in>set cs. isElement li \<longrightarrow> (\<forall>c\<in>set (childNodes li). listClean env c) \<Longrightarrow>
   listItems env ancs isOrdered indent itemNum cs = Some items \<Longrightarrow>
   \<forall>x\<in>set items. x \<noteq> [] \<and> endsClean x"
proof (induction cs arbitrary: itemNum items)
  case Nil
  then show ?case by simp
next
  case (Cons c cs)
  show ?case
  proof (cases "hasTag ''li'' c")
    case False
    then have "listItems env ancs isOrdered indent itemNum (c # cs)
        = listItems env ancs isOrdered indent itemNum cs"
      by (cases c) (simp_all add: hasTag_def)
    then have "listItems env ancs isOrdered indent itemNum cs = Some items"
      using Cons.prems(2) by simp
    then show ?thesis
      using Cons.IH [of itemNum items] Cons.prems(1) by simp
  next
    case True
    then obtain a lcs where c: "c = Element ''li'' a lcs"
      by (cases c) (simp_all add: hasTag_def)
    let ?line = "\<lambda>textContent.
        concat (replicate indent ''  '')
        @ (if isOrdered then numberToString env itemNum @ ''.'' else ''-'')
        @ '' '' @ trim (replaceNewlines '' '' textContent)"
    let ?items = "\<lambda>textContent nestedLists rest.
        (if trim (replaceNewlines '' '' textContent) \<noteq> [] then [?line textContent] else [])
        @ (if nestedLists \<noteq> [] then [trimEnd nestedLists] else [])
        @ rest"
    have "listItems env ancs isOrdered indent itemNum (c # cs) =
        lift3 ?items (listItemText env (''li'' # ancs) lcs)
          (listItemNested env (''li'' # ancs) indent lcs)
          (listItems env ancs isOrdered indent (increment itemNum) cs)"
      unfolding c by (simp add: Let_def)
    then have "lift3 ?items (listItemText env (''li'' # ancs) lcs)
          (listItemNested env (''li'' # ancs) indent lcs)
          (listItems env ancs isOrdered indent (increment itemNum) cs) = Some items"
      using Cons.prems(2) by simp
    then obtain inline nested rest where
      n: "listItemNested env (''li'' # ancs) indent lcs = Some nested"
      and rest: "listItems env ancs isOrdered indent (increment itemNum) cs = Some rest"
      and items: "items = ?items inline nested rest"
      unfolding lift3_eq_Some by blast
    have "endsClean nested"
      using listItemNested_endsClean [OF _ n] Cons.prems(1) c by simp
    then have nested: "nested \<noteq> [] \<longrightarrow> trimEnd nested \<noteq> [] \<and> endsClean (trimEnd nested)"
      by (simp add: trimEnd_endsClean)
    have restClean: "\<forall>x\<in>set rest. x \<noteq> [] \<and> endsClean x"
      using Cons.IH [OF _ rest] Cons.prems(1) by simp
    define line where "line = ?line inline"
    have items': "items =
        (if trim (replaceNewlines '' '' inline) \<noteq> [] then [line] else [])
        @ (if nested \<noteq> [] then [trimEnd nested] else []) @ rest"
      unfolding items line_def by (rule refl)
    have "endsClean (trim (replaceNewlines '' '' inline))"
      by (rule endsClean_trim)
    then have line: "trim (replaceNewlines '' '' inline) \<noteq> [] \<longrightarrow>
        line \<noteq> [] \<and> endsClean line"
      unfolding line_def by (auto simp add: endsClean_def)
    show ?thesis
      unfolding items' using line nested restClean by auto
  qed
qed

lemma listClean_all:
  "listClean env node \<and> (isElement node \<longrightarrow> (\<forall>c\<in>set (childNodes node). listClean env c))"
proof (induction node)
  case (Element tag attrs cs)
  have children: "\<forall>c\<in>set cs. listClean env c"
    using Element by simp
  have grand: "\<forall>li\<in>set cs. isElement li \<longrightarrow> (\<forall>c\<in>set (childNodes li). listClean env c)"
    using Element by simp
  have "listClean env (Element tag attrs cs)"
    unfolding listClean_def
  proof (intro allI impI)
    fix ancs indent r
    assume "convertListToMarkdown env ancs (Element tag attrs cs) indent = Some r"
    then obtain items where
      items: "listItems env (tag # ancs) (tag = ''ol'') indent (startNum (Element tag attrs cs)) cs
        = Some items"
      and r: "r = join ''\<newline>'' items"
      by auto
    from listItems_endsClean [OF grand items] show "endsClean r"
      unfolding r by (rule endsClean_join)
  qed
  with children show ?case by simp
next
  case (TextNode s)
  show ?case by (simp add: listClean_def)
next
  case (Comment s)
  show ?case by (simp add: listClean_def)
qed

lemma convertListToMarkdown_endsClean:
  "convertListToMarkdown env ancs c indent = Some r \<Longrightarrow> trimEnd r = r"
  using listClean_all [of env c] by (simp add: listClean_def trimEnd_endsClean)


subsubsection \<open>The list converter as the specification describes it\<close>

text \<open>
  The decimal numeral of an integer, written down independently of the code's
  \<open>natToString\<close>: the digits from the least significant one, reversed.
\<close>

fun decimalDigits :: "nat \<Rightarrow> nat list" where
  "decimalDigits n = (if n < 10 then [n] else n mod 10 # decimalDigits (n div 10))"

declare decimalDigits.simps [simp del]

definition decimalNumeral :: "int \<Rightarrow> string" where
  "decimalNumeral i =
     (if i < 0 then ''-'' else []) @ map (\<lambda>d. char_of (48 + d)) (rev (decimalDigits (nat \<bar>i\<bar>)))"

text \<open>
  A child of an item is a nested list when it is a \<open>ul\<close> or \<open>ol\<close> element; every other
  child is inline content: an element is converted by \<open>convertElementToMarkdown\<close>, a
  text node gives its text, any other node nothing.
\<close>

definition isListElement :: "node \<Rightarrow> bool" where
  "isListElement c \<longleftrightarrow> hasTag ''ul'' c \<or> hasTag ''ol'' c"

definition inlineOfChild :: "settings \<Rightarrow> string list \<Rightarrow> node \<Rightarrow> string option" where
  "inlineOfChild env ancs c =
     (case c of
        Element t a ccs \<Rightarrow> convertElementToMarkdown env ancs c
      | TextNode s \<Rightarrow> Some s
      | Comment s \<Rightarrow> Some [])"

text \<open>
  The blocks of one item, in the specification's words: the children that are not nested
  lists are inline-converted, newline-collapsed and trimmed, and emitted as
  \<open><indent><marker> <text>\<close> when the text is not empty, the indentation being two spaces
  per level; each nested list is converted one level deeper and its result is appended
  as a line block of its own. \<open>number\<close> is the number of the item.
\<close>

definition specItemBlocks ::
  "settings \<Rightarrow> string list \<Rightarrow> bool \<Rightarrow> nat \<Rightarrow> int \<Rightarrow> node \<Rightarrow> string list option" where
  "specItemBlocks env ancs ordered indent number li =
     lift2
       (\<lambda>inline nested.
          (let marker = (if ordered then decimalNumeral number @ ''.'' else ''-'');
               text = trim (replaceNewlines '' '' (concat inline))
           in (if text \<noteq> [] then [replicate (2 * indent) CHR '' '' @ marker @ '' '' @ text]
               else [])
              @ filter (\<lambda>block. block \<noteq> []) nested))
       (those (map (inlineOfChild env (''li'' # ancs))
                 (filter (\<lambda>c. \<not> isListElement c) (childNodes li))))
       (those (map (\<lambda>c. convertListToMarkdown env (''li'' # ancs) c (indent + 1))
                 (filter isListElement (childNodes li))))"

text \<open>
  The list: the blocks of the direct \<open>li\<close> children, the \<open>k\<close>-th of them (from 0) numbered
  \<open>n + k\<close>, joined by line feeds. \<open>n\<close> is the starting number.
\<close>

definition specListText :: "settings \<Rightarrow> string list \<Rightarrow> node \<Rightarrow> nat \<Rightarrow> int \<Rightarrow> string option" where
  "specListText env ancs list indent n =
     map_option (\<lambda>blocks. join ''\<newline>'' (concat blocks))
       (those (map (\<lambda>(k, li). specItemBlocks env (tagName list # ancs) (tagName list = ''ol'')
                      indent (n + int k) li)
                 (enumerate 0 (filter (hasTag ''li'') (childNodes list)))))"

subsubsection \<open>Numbers read and printed\<close>

lemma natToString_decimalDigits:
  "natToString n = map (\<lambda>d. char_of (48 + d)) (rev (decimalDigits n))"
proof (induction n rule: natToString.induct)
  case (1 n)
  show ?case
  proof (cases "n < 10")
    case True
    then show ?thesis
      by (subst natToString.simps, subst decimalDigits.simps) simp
  next
    case False
    then show ?thesis
      using 1 by (subst natToString.simps, subst decimalDigits.simps) simp
  qed
qed

lemma numberToString_Exact: "numberToString env (Exact i) = decimalNumeral i"
  by (simp add: numberToString_def decimalNumeral_def natToString_decimalDigits)

lemma isDigit_char_of: "(d :: nat) < 10 \<Longrightarrow> isDigit (char_of (48 + d))"
  by (simp add: isDigit_def)

lemma natToString_digits: "\<forall>c\<in>set (natToString n). isDigit c"
proof (induction n rule: natToString.induct)
  case (1 n)
  show ?case
  proof (cases "n < 10")
    case True
    then show ?thesis
      by (subst natToString.simps) (simp add: isDigit_char_of)
  next
    case False
    then show ?thesis
      using 1 by (subst natToString.simps) (simp add: isDigit_char_of)
  qed
qed

lemma natToString_not_Nil: "natToString n \<noteq> []"
  by (subst natToString.simps) simp

lemma digitsValue_snoc:
  "digitsValue (ds @ [c]) = digitsValue ds * 10 + (of_char c - 48)"
  by (simp add: digitsValue_def)

lemma digitsValue_natToString: "digitsValue (natToString n) = n"
proof (induction n rule: natToString.induct)
  case (1 n)
  show ?case
  proof (cases "n < 10")
    case True
    then show ?thesis
      by (subst natToString.simps) (simp add: digitsValue_def)
  next
    case False
    then have "digitsValue (natToString (n div 10)) = n div 10"
      using 1 by simp
    then have "digitsValue (natToString (n div 10) @ [char_of (48 + n mod 10)]) = n"
      by (simp add: digitsValue_snoc)
    with False show ?thesis
      by (subst natToString.simps) simp
  qed
qed

lemma isDigit_not_white: "isDigit c \<Longrightarrow> \<not> isWhiteSpace c \<and> c \<noteq> CHR ''-'' \<and> c \<noteq> CHR ''+''"
  by (auto simp add: isDigit_def isWhiteSpace_def)

lemma parseInt_natToString:
  "int n \<le> exactLimit \<Longrightarrow> parseInt (natToString n) = Exact (int n)"
proof -
  assume le: "int n \<le> exactLimit"
  obtain c cs where s: "natToString n = c # cs"
    using natToString_not_Nil [of n] by (cases "natToString n") simp_all
  have all: "\<forall>x\<in>set (c # cs). isDigit x"
    using natToString_digits [of n] s by simp
  then have c: "\<not> isWhiteSpace c \<and> c \<noteq> CHR ''-'' \<and> c \<noteq> CHR ''+''"
    using isDigit_not_white [of c] by simp
  have tw: "takeWhile isDigit (c # cs) = c # cs"
    using all by (simp add: takeWhile_eq_all_conv)
  have "digitsValue (c # cs) = n"
    using digitsValue_natToString [of n] s by simp
  then show ?thesis
    unfolding s parseInt_def using c tw le by (simp add: Let_def)
qed

lemma parseInt_minus_natToString:
  "int n \<le> exactLimit \<Longrightarrow> parseInt (CHR ''-'' # natToString n) = Exact (- int n)"
proof -
  assume le: "int n \<le> exactLimit"
  have all: "\<forall>x\<in>set (natToString n). isDigit x"
    by (rule natToString_digits)
  then have tw: "takeWhile isDigit (natToString n) = natToString n"
    by (simp add: takeWhile_eq_all_conv)
  have "\<not> isWhiteSpace CHR ''-''"
    by (simp add: isWhiteSpace_def)
  then show ?thesis
    unfolding parseInt_def using le natToString_not_Nil [of n]
    by (simp add: Let_def tw digitsValue_natToString)
qed

lemma parseInt_decimalNumeral:
  "\<bar>i\<bar> \<le> exactLimit \<Longrightarrow> parseInt (decimalNumeral i) = Exact i"
proof (cases "i < 0")
  case True
  assume "\<bar>i\<bar> \<le> exactLimit"
  then have "int (nat (- i)) \<le> exactLimit"
    using True by simp
  then have "parseInt (CHR ''-'' # natToString (nat (- i))) = Exact (- int (nat (- i)))"
    by (rule parseInt_minus_natToString)
  then show ?thesis
    using True by (simp add: decimalNumeral_def natToString_decimalDigits)
next
  case False
  assume "\<bar>i\<bar> \<le> exactLimit"
  then have "int (nat i) \<le> exactLimit"
    using False by simp
  then have "parseInt (natToString (nat i)) = Exact (int (nat i))"
    by (rule parseInt_natToString)
  then show ?thesis
    using False by (simp add: decimalNumeral_def natToString_decimalDigits)
qed

lemma decimalNumeral_not_Nil: "decimalNumeral i \<noteq> []"
  by (subst decimalNumeral_def, subst decimalDigits.simps) simp


subsubsection \<open>The loops of the code\<close>

lemma those_Cons_concat:
  "map_option concat (those (x # xs)) = lift2 append x (map_option concat (those xs))"
  by (cases x; cases "those xs") simp_all

lemma lift2_append_Nil: "lift2 append (Some []) r = r"
  by (cases r) simp_all

lemma listItemText_eq:
  "listItemText env ancs cs =
     map_option concat
       (those (map (inlineOfChild env ancs) (filter (\<lambda>c. \<not> isListElement c) cs)))"
proof (induction cs)
  case Nil
  show ?case by simp
next
  case (Cons c cs)
  show ?case
  proof (cases "isListElement c")
    case True
    then obtain t a ccs where "c = Element t a ccs" and "t = ''ul'' \<or> t = ''ol''"
      by (cases c) (auto simp add: isListElement_def hasTag_def)
    with True show ?thesis
      using Cons.IH by (simp add: lift2_append_Nil)
  next
    case False
    then have "(case c of
          Element t a ccs \<Rightarrow>
            if t = ''ul'' \<or> t = ''ol'' then Some [] else convertElementToMarkdown env ancs c
        | TextNode s \<Rightarrow> Some s
        | Comment s \<Rightarrow> Some []) = inlineOfChild env ancs c"
      by (cases c) (auto simp add: isListElement_def hasTag_def inlineOfChild_def)
    then have "listItemText env ancs (c # cs) =
        lift2 append (inlineOfChild env ancs c) (listItemText env ancs cs)"
      by simp
    with False show ?thesis
      using Cons.IH by (simp only: filter.simps list.map those_Cons_concat if_True simp_thms)
  qed
qed

lemma listItemNested_eq:
  "listItemNested env ancs indent cs =
     map_option concat
       (those (map (\<lambda>c. convertListToMarkdown env ancs c (indent + 1)) (filter isListElement cs)))"
proof (induction cs)
  case Nil
  show ?case by simp
next
  case (Cons c cs)
  show ?case
  proof (cases "isListElement c")
    case False
    then have "(case c of
          Element t a ccs \<Rightarrow>
            if t = ''ul'' \<or> t = ''ol'' then convertListToMarkdown env ancs c (indent + 1)
            else Some []
        | TextNode s \<Rightarrow> Some []
        | Comment s \<Rightarrow> Some []) = Some []"
      by (cases c) (auto simp add: isListElement_def hasTag_def)
    then have "listItemNested env ancs indent (c # cs) = listItemNested env ancs indent cs"
      by (simp add: lift2_append_Nil)
    with False show ?thesis
      using Cons.IH by simp
  next
    case True
    then have "(case c of
          Element t a ccs \<Rightarrow>
            if t = ''ul'' \<or> t = ''ol'' then convertListToMarkdown env ancs c (indent + 1)
            else Some []
        | TextNode s \<Rightarrow> Some []
        | Comment s \<Rightarrow> Some []) = convertListToMarkdown env ancs c (indent + 1)"
      by (cases c) (auto simp add: isListElement_def hasTag_def)
    then have "listItemNested env ancs indent (c # cs) =
        lift2 append (convertListToMarkdown env ancs c (indent + 1))
          (listItemNested env ancs indent cs)"
      by simp
    with True show ?thesis
      using Cons.IH by (simp only: filter.simps list.map those_Cons_concat if_True simp_thms)
  qed
qed

lemma indent_replicate: "concat (replicate n ''  '') = replicate (2 * n) CHR '' ''"
  by (induction n) simp_all

text \<open>One nested list at most: its block is what the code pushes.\<close>

lemma nested_single:
  assumes "length xs \<le> 1"
    and "those (map (\<lambda>c. convertListToMarkdown env ancs c indent) xs) = Some ns"
  shows "(if concat ns \<noteq> [] then [trimEnd (concat ns)] else []) = filter (\<lambda>block. block \<noteq> []) ns"
proof (cases xs)
  case Nil
  with assms(2) show ?thesis by simp
next
  case (Cons x ys)
  with assms(1) have xs: "xs = [x]" by simp
  from assms(2) obtain b where b: "convertListToMarkdown env ancs x indent = Some b"
    and ns: "ns = [b]"
    unfolding xs by (cases "convertListToMarkdown env ancs x indent") auto
  have "trimEnd b = b"
    using b by (rule convertListToMarkdown_endsClean)
  then show ?thesis
    by (simp add: ns)
qed

lemma listItems_li:
  assumes "ordered \<longrightarrow> v = Exact m"
    and "length (filter isListElement lcs) \<le> 1"
  shows "listItems env ancs ordered indent v (Element ''li'' a lcs # cs) =
     lift2 append (specItemBlocks env ancs ordered indent m (Element ''li'' a lcs))
       (listItems env ancs ordered indent (increment v) cs)"
proof -
  let ?A = "those (map (inlineOfChild env (''li'' # ancs)) (filter (\<lambda>c. \<not> isListElement c) lcs))"
  let ?B = "those (map (\<lambda>c. convertListToMarkdown env (''li'' # ancs) c (indent + 1))
                 (filter isListElement lcs))"
  let ?R = "listItems env ancs ordered indent (increment v) cs"
  have prefix: "(if ordered then numberToString env v @ ''.'' else ''-'')
      = (if ordered then decimalNumeral m @ ''.'' else ''-'')"
    using assms(1) by (simp add: numberToString_Exact)
  show ?thesis
  proof (cases ?A)
    case None
    then show ?thesis
      by (simp add: specItemBlocks_def listItemText_eq listItemNested_eq)
  next
    case A: (Some inline)
    show ?thesis
    proof (cases ?B)
      case None
      then show ?thesis
        by (simp add: specItemBlocks_def listItemText_eq listItemNested_eq)
    next
      case B: (Some ns)
      have nested: "(if concat ns \<noteq> [] then [trimEnd (concat ns)] else [])
          = filter (\<lambda>block. block \<noteq> []) ns"
        using assms(2) B by (rule nested_single)
      show ?thesis
      proof (cases ?R)
        case None
        then show ?thesis
          by (simp add: specItemBlocks_def listItemText_eq listItemNested_eq)
      next
        case R: (Some rest)
        show ?thesis
          using A B R nested prefix
          by (simp add: specItemBlocks_def listItemText_eq listItemNested_eq Let_def
              indent_replicate)
      qed
    qed
  qed
qed

lemma listItems_other:
  "\<not> hasTag ''li'' c \<Longrightarrow>
   listItems env ancs ordered indent v (c # cs) = listItems env ancs ordered indent v cs"
  by (cases c) (simp_all add: hasTag_def)

declare listItems.simps(2) [simp del]

lemma listItems_eq:
  assumes "ordered \<longrightarrow> v = Exact (base + int j)
             \<and> base + int j + int (length (filter (hasTag ''li'') cs)) \<le> exactLimit"
    and "\<forall>li\<in>set (filter (hasTag ''li'') cs). length (filter isListElement (childNodes li)) \<le> 1"
  shows "listItems env ancs ordered indent v cs =
     map_option concat
       (those (map (\<lambda>(k, li). specItemBlocks env ancs ordered indent (base + int k) li)
                 (enumerate j (filter (hasTag ''li'') cs))))"
  using assms
proof (induction cs arbitrary: v j)
  case Nil
  show ?case by simp
next
  case (Cons c cs)
  show ?case
  proof (cases "hasTag ''li'' c")
    case False
    then show ?thesis
      using Cons.IH [of v j] Cons.prems by (simp add: listItems_other)
  next
    case True
    then obtain a lcs where c: "c = Element ''li'' a lcs"
      by (cases c) (simp_all add: hasTag_def)
    have one: "length (filter isListElement lcs) \<le> 1"
      using Cons.prems(2) True c by simp
    have num: "ordered \<longrightarrow> v = Exact (base + int j)"
      using Cons.prems(1) by simp
    have next_num: "ordered \<longrightarrow> increment v = Exact (base + int (Suc j))
        \<and> base + int (Suc j) + int (length (filter (hasTag ''li'') cs)) \<le> exactLimit"
      using Cons.prems(1) True by (auto simp add: increment_def)
    have rest: "listItems env ancs ordered indent (increment v) cs =
        map_option concat
          (those (map (\<lambda>(k, li). specItemBlocks env ancs ordered indent (base + int k) li)
                    (enumerate (Suc j) (filter (hasTag ''li'') cs))))"
      using Cons.IH [of "increment v" "Suc j"] next_num Cons.prems(2) by simp
    have "listItems env ancs ordered indent v (c # cs) =
        lift2 append (specItemBlocks env ancs ordered indent (base + int j) c)
          (listItems env ancs ordered indent (increment v) cs)"
      unfolding c using num one by (rule listItems_li)
    then show ?thesis
      using True by (simp add: rest those_Cons_concat del: those.simps)
  qed
qed

lemma startNum_default:
  "map_of attrs ''start'' = None \<or> map_of attrs ''start'' = Some [] \<Longrightarrow>
   startNum (Element tag attrs cs) = Exact 1"
  by (auto simp add: startNum_def orEmpty_def parseInt_def isWhiteSpace_def isDigit_def
      digitsValue_def exactLimit_def)

lemma startNum_attribute:
  "map_of attrs ''start'' = Some s \<Longrightarrow> s \<noteq> [] \<Longrightarrow>
   startNum (Element tag attrs cs) = parseInt s"
  by (simp add: startNum_def orEmpty_def)

text \<open>
  Claim C9, amended. For every list element in which no direct item has more than one
  direct \<open>ul\<close>/\<open>ol\<close> child and, when the list is ordered, whose starting number \<open>n\<close> and
  item count stay within the exact integers of JavaScript (\<open>n\<close> plus the number of direct
  items at most \<open>2^53\<close>), where \<open>n\<close> is 1 when the \<open>start\<close> attribute is absent or empty, and
  otherwise the integer that the attribute is the decimal numeral of, or more generally
  the integer that \<open>parseInt\<close> reads from it:
  the list converter, at nesting depth \<open>indent\<close>, yields the line blocks of the direct
  items joined by line feeds, where the \<open>k\<close>-th direct item (from 0) of an ordered list
  carries the marker \<open>n + k\<close> in decimal followed by a full stop, an item of an unordered
  list the marker \<open>-\<close>; the line of an item is \<open>2 * indent\<close> spaces, the marker, a space and
  the trimmed inline text; the direct \<open>ul\<close>/\<open>ol\<close> child of an item is converted at depth
  \<open>indent + 1\<close> and appended as a block of its own; an item whose inline text is empty
  contributes its nested block only. (When the conversion of a child throws, so does
  the conversion of the list.)
\<close>

theorem list_conversion:
  assumes "tag = ''ol'' \<longrightarrow>
      ((map_of attrs ''start'' = None \<or> map_of attrs ''start'' = Some []) \<and> n = 1
       \<or> map_of attrs ''start'' = Some (decimalNumeral n) \<and> \<bar>n\<bar> \<le> exactLimit
       \<or> (\<exists>s. map_of attrs ''start'' = Some s \<and> s \<noteq> [] \<and> parseInt s = Exact n))
      \<and> n + int (length (filter (hasTag ''li'') cs)) \<le> exactLimit"
    and "\<forall>li\<in>set (filter (hasTag ''li'') cs). length (filter isListElement (childNodes li)) \<le> 1"
  shows "convertListToMarkdown env ancs (Element tag attrs cs) indent
     = specListText env ancs (Element tag attrs cs) indent n"
proof -
  have start: "tag = ''ol'' \<longrightarrow> startNum (Element tag attrs cs) = Exact n"
    using assms(1) startNum_default [of attrs tag cs]
      startNum_attribute [of attrs _ tag cs] parseInt_decimalNumeral [of n]
      decimalNumeral_not_Nil [of n]
    by auto
  have "listItems env (tag # ancs) (tag = ''ol'') indent (startNum (Element tag attrs cs)) cs =
     map_option concat
       (those (map (\<lambda>(k, li). specItemBlocks env (tag # ancs) (tag = ''ol'') indent (n + int k) li)
                 (enumerate 0 (filter (hasTag ''li'') cs))))"
    using listItems_eq [of "tag = ''ol''" "startNum (Element tag attrs cs)" n 0 cs env
        "tag # ancs" indent] start assms
    by simp
  then show ?thesis
    by (simp add: specListText_def option.map_comp comp_def)
qed


subsubsection \<open>Examples\<close>

definition orderedSample :: node where
  "orderedSample =
     Element ''ol'' [(''start'', ''3'')]
       [Element ''li'' [] [TextNode ''one'', Element ''ul'' [] [Element ''li'' [] [TextNode ''sub'']]],
        TextNode '' '',
        Element ''li'' [] [TextNode ''two'']]"

definition defaultSample :: node where
  "defaultSample =
     Element ''ol'' [] [Element ''li'' [] [TextNode ''a''], Element ''li'' [] [TextNode ''b'']]"

definition carrySample :: node where
  "carrySample =
     Element ''ol'' [(''start'', '' 9th'')]
       [Element ''li'' [] [TextNode ''a''], Element ''li'' [] [TextNode ''b'']]"

definition bareNestedSample :: node where
  "bareNestedSample =
     Element ''ul'' [] [Element ''li'' [] [Element ''ul'' [] [Element ''li'' [] [TextNode ''x'']]]]"

definition gluedSample :: node where
  "gluedSample =
     Element ''ul'' []
       [Element ''li'' []
          [Element ''ul'' [] [Element ''li'' [] [TextNode ''x'']],
           Element ''ol'' [] [Element ''li'' [] [TextNode ''y'']]]]"

definition saturatedSample :: node where
  "saturatedSample =
     Element ''ol'' [(''start'', ''9007199254740992'')]
       [Element ''li'' [] [TextNode ''a''], Element ''li'' [] [TextNode ''b'']]"

definition nanSample :: node where
  "nanSample = Element ''ol'' [(''start'', ''abc'')] [Element ''li'' [] [TextNode ''a'']]"

lemmas list_eval =
  transducer_eval listItems.simps(2) specListText_def specItemBlocks_def inlineOfChild_def
  isListElement_def decimalNumeral_def decimalDigits.simps enumerate_eq_zip

text \<open>
  As stated, the claim speaks of every list element. It fails
  \<^item> for an item with two nested lists: their conversions are concatenated with nothing
    between them, so the second nested list starts in the middle of the last line of
    the first, where the specification has every nested list as a line block of its own;
  \<^item> for an ordered list that starts at \<open>2^53\<close>: the increment is absorbed, and the second
    item carries the number of the first;
  \<^item> for a \<open>start\<close> attribute that does not begin with a number: the marker is \<open>NaN.\<close>
\<close>

theorem list_conversion_counterexample:
  "convertListToMarkdown plainSettings [] gluedSample 0 = Some ''  - x  1. y''
   \<and> specListText plainSettings [] gluedSample 0 1 = Some ''  - x\<newline>  1. y''
   \<and> convertListToMarkdown plainSettings [] saturatedSample 0
       = Some ''9007199254740992. a\<newline>9007199254740992. b''
   \<and> convertListToMarkdown plainSettings [] nanSample 0 = Some ''NaN. a''"
  by (simp add: gluedSample_def saturatedSample_def nanSample_def list_eval)

theorem list_conversion_witness:
  "convertListToMarkdown plainSettings [] orderedSample 0
     = Some ''3. one\<newline>  - sub\<newline>4. two''
   \<and> convertListToMarkdown plainSettings [] defaultSample 0 = Some ''1. a\<newline>2. b''
   \<and> convertListToMarkdown plainSettings [] carrySample 1 = Some ''  9. a\<newline>  10. b''
   \<and> convertListToMarkdown plainSettings [] bareNestedSample 0 = Some ''  - x''"
  using list_conversion [where tag = "''ol''" and attrs = "[(''start'', ''3'')]" and n = 3
      and cs = "[Element ''li'' []
                   [TextNode ''one'', Element ''ul'' [] [Element ''li'' [] [TextNode ''sub'']]],
                 TextNode '' '', Element ''li'' [] [TextNode ''two'']]"
      and env = plainSettings and ancs = "[]" and indent = 0]
    list_conversion [where tag = "''ol''" and attrs = "[]" and n = 1
      and cs = "[Element ''li'' [] [TextNode ''a''], Element ''li'' [] [TextNode ''b'']]"
      and env = plainSettings and ancs = "[]" and indent = 0]
    list_conversion [where tag = "''ol''" and attrs = "[(''start'', '' 9th'')]" and n = 9
      and cs = "[Element ''li'' [] [TextNode ''a''], Element ''li'' [] [TextNode ''b'']]"
      and env = plainSettings and ancs = "[]" and indent = 1]
    list_conversion [where tag = "''ul''" and attrs = "[]" and n = 1
      and cs = "[Element ''li'' [] [Element ''ul'' [] [Element ''li'' [] [TextNode ''x'']]]]"
      and env = plainSettings and ancs = "[]" and indent = 0]
  by (simp add: orderedSample_def defaultSample_def carrySample_def bareNestedSample_def
      list_eval)

section \<open>Sender sequence correction\<close>

text \<open>
  The records pushed onto \<open>processedMessages\<close>. The plain Markdown exporter and the
  HTML exporter push \<open>{ sender, content, originalIndex }\<close>; the Markdown exporter that
  embeds images pushes \<open>{ sender, reliable, replyLabel, content, originalIndex }\<close>.
  The sender is the JavaScript string \<open>'You'\<close> or \<open>'ChatGPT'\<close>; the length of a
  string is its number of code units.
\<close>

record plainMessage =
  sender :: string
  content :: string
  originalIndex :: nat

record message = plainMessage +
  reliable :: bool
  replyLabel :: "string option"

text \<open>
  One iteration of the loop
  \<^verbatim>\<open>for (let i = 1; i < processedMessages.length; i++) { ... }\<close>
  with \<open>current = processedMessages[i]\<close> and \<open>previous = processedMessages[i - 1]\<close>.
  The objects are mutated in place; the model returns the updated list.
\<close>

definition correctionStep :: "nat \<Rightarrow> message list \<Rightarrow> message list" where
  "correctionStep i ms =
     (let current = ms ! i; previous = ms ! (i - 1) in
      if reliable current \<or> reliable previous then ms
      else if sender current = sender previous then
        (let currentLength = length (content current);
             previousLength = length (content previous) in
         if currentLength > previousLength * 2 \<and> currentLength > 500 then
           ms[i := current\<lparr>sender := ''ChatGPT''\<rparr>]
         else if previousLength > currentLength * 2 \<and> previousLength > 500 then
           ms[i - 1 := previous\<lparr>sender := ''ChatGPT''\<rparr>, i := current\<lparr>sender := ''You''\<rparr>]
         else
           ms[i := current\<lparr>sender := (if sender current = ''You'' then ''ChatGPT'' else ''You'')\<rparr>])
      else ms)"

lemma length_correctionStep [simp]: "length (correctionStep i ms) = length ms"
  by (simp add: correctionStep_def Let_def)

function correctionLoop :: "nat \<Rightarrow> message list \<Rightarrow> message list" where
  "correctionLoop i ms =
     (if i < length ms then correctionLoop (Suc i) (correctionStep i ms) else ms)"
  by pat_completeness auto
termination
  by (relation "measure (\<lambda>(i, ms). length ms - i)") auto

declare correctionLoop.simps [simp del]

definition correctionPass :: "message list \<Rightarrow> message list" where
  "correctionPass ms = correctionLoop 1 ms"

lemma length_correctionLoop [simp]: "length (correctionLoop i ms) = length ms"
proof (induction i ms rule: correctionLoop.induct)
  case (1 i ms)
  then show ?case
    by (subst correctionLoop.simps) simp
qed

lemma correctionStep_reliable_kept:
  assumes "j < length ms" and "reliable (ms ! j)"
  shows "correctionStep i ms ! j = ms ! j"
  using assms
  by (cases "j = i"; cases "j = i - 1") (auto simp: correctionStep_def Let_def)

lemma correctionLoop_reliable_kept:
  "j < length ms \<Longrightarrow> reliable (ms ! j) \<Longrightarrow> correctionLoop i ms ! j = ms ! j"
proof (induction i ms rule: correctionLoop.induct)
  case (1 i ms)
  show ?case
  proof (cases "i < length ms")
    case True
    have "correctionLoop i ms ! j = correctionLoop (Suc i) (correctionStep i ms) ! j"
      using True by (subst correctionLoop.simps) simp
    also have "\<dots> = correctionStep i ms ! j"
      using "1.IH" [OF True] "1.prems" by (simp add: correctionStep_reliable_kept)
    also have "\<dots> = ms ! j"
      using "1.prems" by (rule correctionStep_reliable_kept)
    finally show ?thesis .
  next
    case False
    then show ?thesis by (subst correctionLoop.simps) simp
  qed
qed

lemma correctionStep_skips_reliable_pair:
  "reliable (ms ! i) \<or> reliable (ms ! (i - 1)) \<Longrightarrow> correctionStep i ms = ms"
  by (auto simp: correctionStep_def Let_def)

subsection \<open>The loop of the plain Markdown and HTML exporters\<close>

text \<open>
  The same loop without the \<open>reliable\<close> test: these two exporters keep no such flag.
\<close>

definition correctionStepPlain ::
  "nat \<Rightarrow> 'a plainMessage_scheme list \<Rightarrow> 'a plainMessage_scheme list" where
  "correctionStepPlain i ms =
     (let current = ms ! i; previous = ms ! (i - 1) in
      if sender current = sender previous then
        (let currentLength = length (content current);
             previousLength = length (content previous) in
         if currentLength > previousLength * 2 \<and> currentLength > 500 then
           ms[i := current\<lparr>sender := ''ChatGPT''\<rparr>]
         else if previousLength > currentLength * 2 \<and> previousLength > 500 then
           ms[i - 1 := previous\<lparr>sender := ''ChatGPT''\<rparr>, i := current\<lparr>sender := ''You''\<rparr>]
         else
           ms[i := current\<lparr>sender := (if sender current = ''You'' then ''ChatGPT'' else ''You'')\<rparr>])
      else ms)"

lemma length_correctionStepPlain [simp]: "length (correctionStepPlain i ms) = length ms"
  by (simp add: correctionStepPlain_def Let_def)

function correctionLoopPlain ::
  "nat \<Rightarrow> 'a plainMessage_scheme list \<Rightarrow> 'a plainMessage_scheme list" where
  "correctionLoopPlain i ms =
     (if i < length ms then correctionLoopPlain (Suc i) (correctionStepPlain i ms) else ms)"
  by pat_completeness auto
termination
  by (relation "measure (\<lambda>(i, ms). length ms - i)") auto

declare correctionLoopPlain.simps [simp del]

definition correctionPassPlain :: "'a plainMessage_scheme list \<Rightarrow> 'a plainMessage_scheme list" where
  "correctionPassPlain ms = correctionLoopPlain 1 ms"

lemma length_correctionLoopPlain [simp]: "length (correctionLoopPlain i ms) = length ms"
proof (induction i ms rule: correctionLoopPlain.induct)
  case (1 i ms)
  then show ?case
    by (subst correctionLoopPlain.simps) simp
qed

subsection \<open>Messages behind the loop index keep the label ChatGPT\<close>

text \<open>
  Iteration \<open>k\<close> writes positions \<open>k - 1\<close> and \<open>k\<close> only, and the only value it ever
  writes to position \<open>k - 1\<close> is \<open>'ChatGPT'\<close>.
\<close>

lemma correctionStep_behind:
  "j < k \<Longrightarrow> k < length ms \<Longrightarrow> sender (ms ! j) = ''ChatGPT'' \<Longrightarrow>
   sender (correctionStep k ms ! j) = ''ChatGPT''"
  by (cases "j = k - 1") (auto simp: correctionStep_def Let_def)

lemma correctionLoop_behind:
  "j < k \<Longrightarrow> sender (ms ! j) = ''ChatGPT'' \<Longrightarrow> sender (correctionLoop k ms ! j) = ''ChatGPT''"
proof (induction k ms rule: correctionLoop.induct)
  case (1 k ms)
  show ?case
  proof (cases "k < length ms")
    case True
    have "sender (correctionStep k ms ! j) = ''ChatGPT''"
      using "1.prems"(1) True "1.prems"(2) by (rule correctionStep_behind)
    with "1.IH" [OF True] "1.prems"(1)
    have "sender (correctionLoop (Suc k) (correctionStep k ms) ! j) = ''ChatGPT''"
      by simp
    then show ?thesis
      using True by (subst correctionLoop.simps) simp
  next
    case False
    then show ?thesis
      using "1.prems" by (subst correctionLoop.simps) simp
  qed
qed

lemma correctionStepPlain_behind:
  "j < k \<Longrightarrow> k < length ms \<Longrightarrow> sender (ms ! j) = ''ChatGPT'' \<Longrightarrow>
   sender (correctionStepPlain k ms ! j) = ''ChatGPT''"
  by (cases "j = k - 1") (auto simp: correctionStepPlain_def Let_def)

lemma correctionLoopPlain_behind:
  "j < k \<Longrightarrow> sender (ms ! j) = ''ChatGPT'' \<Longrightarrow>
   sender (correctionLoopPlain k ms ! j) = ''ChatGPT''"
proof (induction k ms rule: correctionLoopPlain.induct)
  case (1 k ms)
  show ?case
  proof (cases "k < length ms")
    case True
    have "sender (correctionStepPlain k ms ! j) = ''ChatGPT''"
      using "1.prems"(1) True "1.prems"(2) by (rule correctionStepPlain_behind)
    with "1.IH" [OF True] "1.prems"(1)
    have "sender (correctionLoopPlain (Suc k) (correctionStepPlain k ms) ! j) = ''ChatGPT''"
      by simp
    then show ?thesis
      using True by (subst correctionLoopPlain.simps) simp
  next
    case False
    then show ?thesis
      using "1.prems" by (subst correctionLoopPlain.simps) simp
  qed
qed

subsection \<open>Example message lists\<close>

definition mk :: "string \<Rightarrow> bool \<Rightarrow> nat \<Rightarrow> nat \<Rightarrow> message" where
  "mk who rel n k =
     \<lparr>sender = who, content = replicate n CHR ''x'', originalIndex = k,
      reliable = rel, replyLabel = None\<rparr>"

definition mkPlain :: "string \<Rightarrow> nat \<Rightarrow> nat \<Rightarrow> plainMessage" where
  "mkPlain who n k = \<lparr>sender = who, content = replicate n CHR ''x'', originalIndex = k\<rparr>"

lemma mk_simps [simp]:
  "sender (mk who rel n k) = who" "reliable (mk who rel n k) = rel"
  "length (content (mk who rel n k)) = n"
  by (simp_all add: mk_def)

lemma mkPlain_simps [simp]:
  "sender (mkPlain who n k) = who" "length (content (mkPlain who n k)) = n"
  by (simp_all add: mkPlain_def)

lemma mk_update [simp]: "(mk who rel n k)\<lparr>sender := w\<rparr> = mk w rel n k"
  by (simp add: mk_def)

lemma mkPlain_update [simp]: "(mkPlain who n k)\<lparr>sender := w\<rparr> = mkPlain w n k"
  by (simp add: mkPlain_def)

lemma correctionPass_two:
  "correctionPass [a, b] = correctionStep 1 [a, b]"
  by (simp add: correctionPass_def correctionLoop.simps)

lemma correctionPass_three:
  "correctionPass [a, b, c] = correctionStep 2 (correctionStep 1 [a, b, c])"
  by (simp add: correctionPass_def correctionLoop.simps numeral_2_eq_2)

lemma correctionPassPlain_two:
  "correctionPassPlain [a, b] = correctionStepPlain 1 [a, b]"
  by (simp add: correctionPassPlain_def correctionLoopPlain.simps)

lemma correctionPassPlain_three:
  "correctionPassPlain [a, b, c] = correctionStepPlain 2 (correctionStepPlain 1 [a, b, c])"
  by (simp add: correctionPassPlain_def correctionLoopPlain.simps numeral_2_eq_2)

lemma ex_pass_3:
  "correctionPass [mk ''You'' True 10 0, mk ''You'' False 600 1, mk ''You'' False 10 2]
   = [mk ''You'' True 10 0, mk ''ChatGPT'' False 600 1, mk ''You'' False 10 2]"
  by (simp add: correctionPass_three correctionStep_def Let_def)

lemma sender_update_same:
  "sender (m :: 'a plainMessage_scheme) = w \<Longrightarrow> m\<lparr>sender := w\<rparr> = m"
  by auto

lemma correctionStep_longer_ChatGPT:
  assumes "i < length s"
    and "\<not> reliable (s ! (i - 1))" and "\<not> reliable (s ! i)"
    and "sender (s ! (i - 1)) = ''ChatGPT''" and "sender (s ! i) = ''ChatGPT''"
    and "2 * length (content (s ! (i - 1))) < length (content (s ! i))"
    and "500 < length (content (s ! i))"
  shows "correctionStep i s = s"
proof -
  have "(s ! i)\<lparr>sender := ''ChatGPT''\<rparr> = s ! i"
    using assms(5) by (rule sender_update_same)
  then have same: "s[i := (s ! i)\<lparr>sender := ''ChatGPT''\<rparr>] = s"
    by simp
  show ?thesis
    using assms by (simp add: correctionStep_def Let_def mult.commute same)
qed

lemma correctionStepPlain_longer_ChatGPT:
  assumes "i < length s"
    and "sender (s ! (i - 1)) = ''ChatGPT''" and "sender (s ! i) = ''ChatGPT''"
    and "2 * length (content (s ! (i - 1))) < length (content (s ! i))"
    and "500 < length (content (s ! i))"
  shows "correctionStepPlain i s = s"
proof -
  have "(s ! i)\<lparr>sender := ''ChatGPT''\<rparr> = s ! i"
    using assms(3) by (rule sender_update_same)
  then have same: "s[i := (s ! i)\<lparr>sender := ''ChatGPT''\<rparr>] = s"
    by simp
  show ?thesis
    using assms by (simp add: correctionStepPlain_def Let_def mult.commute same)
qed

subsection \<open>Claim C2: reliable attributions survive the correction pass\<close>

text \<open>
  As stated, the claim ends with: an adjacent pair in which either side is reliable is
  left entirely untouched by the pass. For the list
  \<open>[You (reliable, 10 characters), You (600 characters), You (10 characters)]\<close> the first
  pair has a reliable side, the iteration for it is skipped, and the iteration for the
  second pair (no reliable side, the earlier message more than twice as long and over
  500 characters) relabels the second message \<open>ChatGPT\<close>: the unreliable member of the
  first pair does not keep its speaker.
\<close>

theorem reliable_pair_counterexample:
  "reliable ([mk ''You'' True 10 0, mk ''You'' False 600 1, mk ''You'' False 10 2] ! 0)
   \<and> sender ([mk ''You'' True 10 0, mk ''You'' False 600 1, mk ''You'' False 10 2] ! 1) = ''You''
   \<and> sender (correctionPass
        [mk ''You'' True 10 0, mk ''You'' False 600 1, mk ''You'' False 10 2] ! 1) = ''ChatGPT''"
  by (simp add: correctionPass_three correctionStep_def Let_def)

text \<open>
  Claim C2, amended. The correction pass of the Markdown exporter that embeds images
  preserves every reliably attributed message: a message marked \<open>reliable = true\<close> is,
  after the pass, the very record it was before (same speaker, same flag), even when an
  adjacent unreliable message shares its speaker; the pass keeps the length of the list.
  The iteration of the pass that examines an adjacent pair in which either side is
  reliable changes nothing at all. (The unreliable member of such a pair can still be
  relabelled by the iteration that examines its other adjacent pair.)
\<close>

theorem reliable_attribution_preserved:
  "length (correctionPass ms) = length ms
   \<and> (i < length ms \<and> reliable (ms ! i) \<longrightarrow>
        correctionPass ms ! i = ms ! i \<and> sender (correctionPass ms ! i) = sender (ms ! i))
   \<and> (0 < k \<and> k < length s \<and> (reliable (s ! (k - 1)) \<or> reliable (s ! k)) \<longrightarrow>
        correctionStep k s = s)"
proof (intro conjI impI)
  show "length (correctionPass ms) = length ms"
    by (simp add: correctionPass_def)
next
  assume a: "i < length ms \<and> reliable (ms ! i)"
  then show "correctionPass ms ! i = ms ! i"
    by (simp add: correctionPass_def correctionLoop_reliable_kept)
  then show "sender (correctionPass ms ! i) = sender (ms ! i)"
    by simp
next
  assume "0 < k \<and> k < length s \<and> (reliable (s ! (k - 1)) \<or> reliable (s ! k))"
  then show "correctionStep k s = s"
    by (auto intro: correctionStep_skips_reliable_pair)
qed

theorem reliable_attribution_preserved_witness:
  "reliable ([mk ''You'' True 10 0, mk ''You'' False 600 1] ! 0)
   \<and> sender ([mk ''You'' True 10 0, mk ''You'' False 600 1] ! 1) = ''You''
   \<and> correctionPass [mk ''You'' True 10 0, mk ''You'' False 600 1] ! 0 = mk ''You'' True 10 0
   \<and> correctionStep 1 [mk ''You'' True 10 0, mk ''You'' False 600 1]
       = [mk ''You'' True 10 0, mk ''You'' False 600 1]"
  using reliable_attribution_preserved
    [of "[mk ''You'' True 10 0, mk ''You'' False 600 1]" 0 1
        "[mk ''You'' True 10 0, mk ''You'' False 600 1]"]
  by simp

subsection \<open>Claim C10: the pass can leave two adjacent ChatGPT messages\<close>

text \<open>
  As stated, the claim speaks of every adjacent pair of the list. For three unreliable
  messages \<open>[ChatGPT (100 characters), ChatGPT (100), ChatGPT (600)]\<close> the second pair
  meets the claim's conditions, but the iteration for the first pair has already
  flipped the middle message to \<open>You\<close> when the pass reaches the second pair, so the
  two messages do not both end as \<open>ChatGPT\<close>. Both loops behave alike.
\<close>

theorem both_ChatGPT_counterexample:
  "sender ([mk ''ChatGPT'' False 100 0, mk ''ChatGPT'' False 100 1, mk ''ChatGPT'' False 600 2] ! 1)
     = ''ChatGPT''
   \<and> sender ([mk ''ChatGPT'' False 100 0, mk ''ChatGPT'' False 100 1, mk ''ChatGPT'' False 600 2] ! 2)
     = ''ChatGPT''
   \<and> sender (correctionPass
        [mk ''ChatGPT'' False 100 0, mk ''ChatGPT'' False 100 1, mk ''ChatGPT'' False 600 2] ! 1)
     = ''You''
   \<and> sender (correctionPassPlain
        [mkPlain ''ChatGPT'' 100 0, mkPlain ''ChatGPT'' 100 1, mkPlain ''ChatGPT'' 600 2] ! 1)
     = ''You''"
  by (simp add: correctionPass_three correctionPassPlain_three correctionStep_def
      correctionStepPlain_def Let_def)

text \<open>
  Claim C10, amended. The correction pass does not guarantee speaker alternation.
  Whenever the loop stands at index \<open>i\<close> and the pair \<open>(i - 1, i)\<close> of the list as it is
  at that moment consists of two unreliable messages both labelled \<open>ChatGPT\<close>, the
  later one more than twice as long as the earlier one and longer than 500 characters,
  the iteration assigns \<open>ChatGPT\<close> to the later message, which changes nothing, and both
  messages are still labelled \<open>ChatGPT\<close> when the pass ends. \<open>correctionLoop i s\<close> is the
  rest of the pass from index \<open>i\<close> on; for \<open>i = 1\<close> it is the whole pass, so for the first
  pair the condition is one on the input list. The loop of the plain Markdown and HTML
  exporters, which keep no reliability flag, behaves the same way.
\<close>

theorem adjacent_ChatGPT_remain:
  "(0 < i \<and> i < length s
      \<and> \<not> reliable (s ! (i - 1)) \<and> \<not> reliable (s ! i)
      \<and> sender (s ! (i - 1)) = ''ChatGPT'' \<and> sender (s ! i) = ''ChatGPT''
      \<and> 2 * length (content (s ! (i - 1))) < length (content (s ! i))
      \<and> 500 < length (content (s ! i))
    \<longrightarrow> correctionStep i s = s
      \<and> sender (correctionLoop i s ! (i - 1)) = ''ChatGPT''
      \<and> sender (correctionLoop i s ! i) = ''ChatGPT'')
   \<and> (0 < j \<and> j < length p
      \<and> sender (p ! (j - 1)) = ''ChatGPT'' \<and> sender (p ! j) = ''ChatGPT''
      \<and> 2 * length (content (p ! (j - 1))) < length (content (p ! j))
      \<and> 500 < length (content (p ! j))
    \<longrightarrow> correctionStepPlain j p = p
      \<and> sender (correctionLoopPlain j p ! (j - 1)) = ''ChatGPT''
      \<and> sender (correctionLoopPlain j p ! j) = ''ChatGPT'')"
proof (intro conjI impI)
  assume a: "0 < i \<and> i < length s
      \<and> \<not> reliable (s ! (i - 1)) \<and> \<not> reliable (s ! i)
      \<and> sender (s ! (i - 1)) = ''ChatGPT'' \<and> sender (s ! i) = ''ChatGPT''
      \<and> 2 * length (content (s ! (i - 1))) < length (content (s ! i))
      \<and> 500 < length (content (s ! i))"
  then show step: "correctionStep i s = s"
    by (intro correctionStep_longer_ChatGPT) simp_all
  have unfold: "correctionLoop i s = correctionLoop (Suc i) s"
    using a step by (subst correctionLoop.simps) simp
  show "sender (correctionLoop i s ! (i - 1)) = ''ChatGPT''"
    using a unfold by (simp add: correctionLoop_behind)
  show "sender (correctionLoop i s ! i) = ''ChatGPT''"
    using a unfold by (simp add: correctionLoop_behind)
next
  assume a: "0 < j \<and> j < length p
      \<and> sender (p ! (j - 1)) = ''ChatGPT'' \<and> sender (p ! j) = ''ChatGPT''
      \<and> 2 * length (content (p ! (j - 1))) < length (content (p ! j))
      \<and> 500 < length (content (p ! j))"
  then show step: "correctionStepPlain j p = p"
    by (intro correctionStepPlain_longer_ChatGPT) simp_all
  have unfold: "correctionLoopPlain j p = correctionLoopPlain (Suc j) p"
    using a step by (subst correctionLoopPlain.simps) simp
  show "sender (correctionLoopPlain j p ! (j - 1)) = ''ChatGPT''"
    using a unfold by (simp add: correctionLoopPlain_behind)
  show "sender (correctionLoopPlain j p ! j) = ''ChatGPT''"
    using a unfold by (simp add: correctionLoopPlain_behind)
qed

theorem adjacent_ChatGPT_remain_witness:
  "sender (correctionPass [mk ''ChatGPT'' False 10 0, mk ''ChatGPT'' False 600 1] ! 0) = ''ChatGPT''
   \<and> sender (correctionPass [mk ''ChatGPT'' False 10 0, mk ''ChatGPT'' False 600 1] ! 1) = ''ChatGPT''
   \<and> sender (correctionPassPlain [mkPlain ''ChatGPT'' 10 0, mkPlain ''ChatGPT'' 600 1] ! 0) = ''ChatGPT''
   \<and> sender (correctionPassPlain [mkPlain ''ChatGPT'' 10 0, mkPlain ''ChatGPT'' 600 1] ! 1) = ''ChatGPT''"
  using adjacent_ChatGPT_remain
    [of 1 "[mk ''ChatGPT'' False 10 0, mk ''ChatGPT'' False 600 1]"
        1 "[mkPlain ''ChatGPT'' 10 0, mkPlain ''ChatGPT'' 600 1]"]
  by (simp add: correctionPass_def correctionPassPlain_def)

end
